theory Spec2Isabelle
  imports Complex_Main "HOL-Library.Multiset"
begin

section \<open>Device buffers and kernel launches\<close>

text \<open>
  A buffer is a list. A kernel reads and writes it through a C index; an index outside
  the buffer is undefined behaviour on the device, which the model reports as
  \<open>None\<close>.
\<close>

definition read_at :: "'a list \<Rightarrow> int \<Rightarrow> 'a option" where
  "read_at buf i = (if 0 \<le> i \<and> i < int (length buf) then Some (buf ! nat i) else None)"

definition write_at :: "'a list \<Rightarrow> int \<Rightarrow> 'a \<Rightarrow> 'a list option" where
  "write_at buf i v = (if 0 \<le> i \<and> i < int (length buf) then Some (buf[nat i := v]) else None)"

text \<open>
  Modelled from the spec: the macro \<open>ATOM_ADD\<close> is defined in an include that is not
  among the sources; the spec calls it an atomic add that accumulates into the
  destination, so it adds \<open>v\<close> to the cell in one indivisible step.
\<close>

definition ATOM_ADD :: "('a::plus) list \<Rightarrow> int \<Rightarrow> 'a \<Rightarrow> 'a list option" where
  "ATOM_ADD buf i v =
     (case read_at buf i of None \<Rightarrow> None | Some old \<Rightarrow> write_at buf i (old + v))"

text \<open>
  A launch runs the kernel body once for every global id. The work items of a launch
  run in no fixed order; a schedule is the order in which their (single, indivisible)
  writes land, any permutation of \<open>0 ..< global_size\<close>.
\<close>

fun launch :: "(nat \<Rightarrow> 's \<Rightarrow> 's option) \<Rightarrow> nat list \<Rightarrow> 's \<Rightarrow> 's option" where
  "launch body [] s = Some s"
| "launch body (i # is) s =
     (case body i s of None \<Rightarrow> None | Some s' \<Rightarrow> launch body is s')"

definition is_schedule :: "nat \<Rightarrow> nat list \<Rightarrow> bool" where
  "is_schedule global_size sched = (sort sched = [0..<global_size])"

section \<open>Pooling geometry\<close>

text \<open>
  The compile-time macros of the pooling kernels. \<open>OUT_SX\<close> and \<open>OUT_SY\<close> are
  defined in \<open>pooling_common.cl\<close>, which is not among the sources: they are taken as
  parameters of the configuration.
\<close>

record pooling_config =
  SX :: int
  SY :: int
  N_CHANNELS :: int
  KX :: int
  KY :: int
  SLIDE_X :: int
  SLIDE_Y :: int
  OUT_SX :: int
  OUT_SY :: int

definition USE_ATOMICS :: "pooling_config \<Rightarrow> bool" where
  "USE_ATOMICS cfg = (SLIDE_X cfg < KX cfg \<or> SLIDE_Y cfg < KY cfg)"

definition direct_write :: "pooling_config \<Rightarrow> bool" where
  "direct_write cfg = (SLIDE_X cfg \<ge> KX cfg \<and> SLIDE_Y cfg \<ge> KY cfg)"

section \<open>Max pooling, backward\<close>

text \<open>
  One work item of \<open>gd_max_pooling\<close>: the plain store when \<open>SLIDE_X >= KX\<close> and
  \<open>SLIDE_Y >= KY\<close>, the atomic add otherwise. The element type only needs an
  addition. The kernel is launched with one work item for every element of \<open>err_y\<close>.
\<close>

definition gd_max_pooling_item ::
  "pooling_config \<Rightarrow> ('a::plus) list \<Rightarrow> int list \<Rightarrow> nat \<Rightarrow> 'a list \<Rightarrow> 'a list option" where
  "gd_max_pooling_item cfg err_y h_offs idx err_h =
     (case read_at h_offs (int idx) of
        None \<Rightarrow> None
      | Some off \<Rightarrow>
          (case read_at err_y (int idx) of
             None \<Rightarrow> None
           | Some e \<Rightarrow>
               if direct_write cfg then write_at err_h off e
               else ATOM_ADD err_h off e))"

definition gd_max_pooling ::
  "pooling_config \<Rightarrow> ('a::plus) list \<Rightarrow> int list \<Rightarrow> nat list \<Rightarrow> 'a list \<Rightarrow> 'a list option" where
  "gd_max_pooling cfg err_y h_offs sched err_h =
     launch (gd_max_pooling_item cfg err_y h_offs) sched err_h"

text \<open>
  What the forward pass hands over: one offset for every element of \<open>err_y\<close>, each
  inside \<open>err_h\<close>.
\<close>

definition offsets_in_range :: "nat \<Rightarrow> nat \<Rightarrow> int list \<Rightarrow> bool" where
  "offsets_in_range n m h_offs =
     (length h_offs = n \<and> list_all (\<lambda>off. 0 \<le> off \<and> off < int m) h_offs)"

text \<open>Two concrete geometries: disjoint 2x2 windows on a 4x4 image, and a row of five
  pixels pooled by windows of width 3 with stride 2.\<close>

definition cfg_disjoint :: pooling_config where
  "cfg_disjoint = \<lparr>SX = 4, SY = 4, N_CHANNELS = 1, KX = 2, KY = 2, SLIDE_X = 2, SLIDE_Y = 2,
     OUT_SX = 2, OUT_SY = 2\<rparr>"

definition cfg_overlap :: pooling_config where
  "cfg_overlap = \<lparr>SX = 5, SY = 1, N_CHANNELS = 1, KX = 3, KY = 1, SLIDE_X = 2, SLIDE_Y = 1,
     OUT_SX = 3, OUT_SY = 1\<rparr>"

section \<open>Average pooling, backward\<close>

text \<open>
  \<open>dtype\<close> is the kernels' floating-point type. It is modelled by the real numbers:
  the theorems are about the formulas the kernels evaluate, not about rounding.
\<close>

type_synonym dtype = real

text \<open>
  Modelled from the spec: the macros \<open>TARGET_PIXEL_X\<close> and \<open>TARGET_CHANNEL\<close> are
  defined in \<open>pooling_common.cl\<close>, which is not among the sources. Buffers are laid out
  width x height x channels with the channel running fastest (the kernel steps \<open>x\<close> by
  \<open>N_CHANNELS\<close> and \<open>target_x\<close> ranges over \<open>OUT_SX * N_CHANNELS\<close>), so the pixel is
  the quotient and the channel the remainder of \<open>target_x\<close> by \<open>N_CHANNELS\<close>.
\<close>

definition TARGET_PIXEL_X :: "pooling_config \<Rightarrow> int \<Rightarrow> int" where
  "TARGET_PIXEL_X cfg target_x = target_x div N_CHANNELS cfg"

definition TARGET_CHANNEL :: "pooling_config \<Rightarrow> int \<Rightarrow> int" where
  "TARGET_CHANNEL cfg target_x = target_x mod N_CHANNELS cfg"

text \<open>
  The two preprocessor conditions that say the windows tile the image exactly along an
  axis, and the macros \<open>NY\<close> and \<open>NX\<close> they select.
\<close>

definition y_exact :: "pooling_config \<Rightarrow> bool" where
  "y_exact cfg = ((OUT_SY cfg - 1) * SLIDE_Y cfg + KY cfg = SY cfg)"

definition x_exact :: "pooling_config \<Rightarrow> bool" where
  "x_exact cfg = ((OUT_SX cfg - 1) * SLIDE_X cfg + KX cfg = SX cfg)"

definition NY :: "pooling_config \<Rightarrow> int \<Rightarrow> int" where
  "NY cfg target_y =
     (if y_exact cfg then KY cfg
      else min (KY cfg) (SY cfg - (target_y mod OUT_SY cfg) * SLIDE_Y cfg))"

definition NX :: "pooling_config \<Rightarrow> int \<Rightarrow> int" where
  "NX cfg pixel_x =
     (if x_exact cfg then KX cfg
      else min (KX cfg) (SX cfg - pixel_x * SLIDE_X cfg))"

text \<open>The innermost statement: a store, or an atomic add when windows overlap.\<close>

definition store :: "pooling_config \<Rightarrow> dtype list \<Rightarrow> int \<Rightarrow> dtype \<Rightarrow> dtype list option" where
  "store cfg err_h i v = (if direct_write cfg then write_at err_h i v else ATOM_ADD err_h i v)"

text \<open>
  The two \<open>for\<close> loops. The bound checks \<open>x < SX * N_CHANNELS\<close> and \<open>y < SY\<close> are
  compiled in only when the windows do not tile the axis exactly.
\<close>

function loop_x ::
  "pooling_config \<Rightarrow> dtype \<Rightarrow> int \<Rightarrow> int \<Rightarrow> int \<Rightarrow> dtype list \<Rightarrow> dtype list option" where
  "loop_x cfg avg offs j x err_h =
     (if j < KX cfg \<and> (x_exact cfg \<or> x < SX cfg * N_CHANNELS cfg)
      then (case store cfg err_h (offs + x) avg of
              None \<Rightarrow> None
            | Some err_h' \<Rightarrow> loop_x cfg avg offs (j + 1) (x + N_CHANNELS cfg) err_h')
      else Some err_h)"
  by pat_completeness auto

termination
  by (relation "measure (\<lambda>(cfg, avg, offs, j, x, err_h). nat (KX cfg - j))") auto

function loop_y ::
  "pooling_config \<Rightarrow> dtype \<Rightarrow> int \<Rightarrow> int \<Rightarrow> int \<Rightarrow> int \<Rightarrow> dtype list \<Rightarrow> dtype list option" where
  "loop_y cfg avg start_x i y offs err_h =
     (if i < KY cfg \<and> (y_exact cfg \<or> y < SY cfg)
      then (case loop_x cfg avg offs 0 start_x err_h of
              None \<Rightarrow> None
            | Some err_h' \<Rightarrow>
                loop_y cfg avg start_x (i + 1) (y + 1) (offs + SX cfg * N_CHANNELS cfg) err_h')
      else Some err_h)"
  by pat_completeness auto

termination
  by (relation "measure (\<lambda>(cfg, avg, start_x, i, y, offs, err_h). nat (KY cfg - i))") auto

text \<open>
  One work item. A zero divisor makes \<open>avg\<close> infinite or not a number; the model
  reports that as \<open>None\<close>, like an access outside a buffer.
\<close>

definition target_x :: "pooling_config \<Rightarrow> nat \<Rightarrow> int" where
  "target_x cfg gid = int gid mod (OUT_SX cfg * N_CHANNELS cfg)"

definition target_y :: "pooling_config \<Rightarrow> nat \<Rightarrow> int" where
  "target_y cfg gid = int gid div (OUT_SX cfg * N_CHANNELS cfg)"

definition gd_avg_pooling_item ::
  "pooling_config \<Rightarrow> dtype list \<Rightarrow> nat \<Rightarrow> dtype list \<Rightarrow> dtype list option" where
  "gd_avg_pooling_item cfg err_y gid err_h =
     (let tx = target_x cfg gid;
          ty = target_y cfg gid;
          start_x = TARGET_PIXEL_X cfg tx * SLIDE_X cfg * N_CHANNELS cfg + TARGET_CHANNEL cfg tx;
          start_y = ty mod OUT_SY cfg * SLIDE_Y cfg;
          idx = ty * OUT_SX cfg * N_CHANNELS cfg + tx
      in case read_at err_y idx of
           None \<Rightarrow> None
         | Some e \<Rightarrow>
             if NY cfg ty * NX cfg (TARGET_PIXEL_X cfg tx) = 0 then None
             else
               let avg = e / of_int (NY cfg ty * NX cfg (TARGET_PIXEL_X cfg tx));
                   offs = ((ty div OUT_SY cfg) * SY cfg + start_y) * SX cfg * N_CHANNELS cfg
               in loop_y cfg avg start_x 0 start_y offs err_h)"

text \<open>
  For the statements below: storing one value into a list of cells, and the cells of
  the window of a work item, as flat indices of (image, row, column, channel).
\<close>

fun store_all :: "pooling_config \<Rightarrow> int list \<Rightarrow> dtype \<Rightarrow> dtype list \<Rightarrow> dtype list option" where
  "store_all cfg [] v err_h = Some err_h"
| "store_all cfg (c # cs) v err_h =
     (case store cfg err_h c v of None \<Rightarrow> None | Some err_h' \<Rightarrow> store_all cfg cs v err_h')"

definition window_cells :: "pooling_config \<Rightarrow> nat \<Rightarrow> int list" where
  "window_cells cfg gid =
     (let tx = target_x cfg gid; ty = target_y cfg gid;
          px = TARGET_PIXEL_X cfg tx; ch = TARGET_CHANNEL cfg tx;
          image = ty div OUT_SY cfg; py = ty mod OUT_SY cfg
      in concat (map (\<lambda>i. map (\<lambda>k.
            ((image * SY cfg + py * SLIDE_Y cfg + i) * SX cfg + (px * SLIDE_X cfg + k))
              * N_CHANNELS cfg + ch) [0..NX cfg px - 1]) [0..NY cfg ty - 1]))"

text \<open>
  A geometry the kernel can be built for: positive sizes, and the last window of each
  axis starts inside the image.
\<close>

definition valid_geometry :: "pooling_config \<Rightarrow> bool" where
  "valid_geometry cfg =
     (0 < N_CHANNELS cfg \<and> 0 < OUT_SX cfg \<and> 0 < OUT_SY cfg \<and> 0 < KX cfg \<and> 0 < KY cfg \<and>
      0 \<le> SLIDE_X cfg \<and> 0 \<le> SLIDE_Y cfg \<and>
      (OUT_SX cfg - 1) * SLIDE_X cfg < SX cfg \<and> (OUT_SY cfg - 1) * SLIDE_Y cfg < SY cfg)"

definition pixel_x :: "pooling_config \<Rightarrow> nat \<Rightarrow> int" where
  "pixel_x cfg gid = TARGET_PIXEL_X cfg (target_x cfg gid)"

definition pixel_y :: "pooling_config \<Rightarrow> nat \<Rightarrow> int" where
  "pixel_y cfg gid = target_y cfg gid mod OUT_SY cfg"

definition divisor :: "pooling_config \<Rightarrow> nat \<Rightarrow> int" where
  "divisor cfg gid = NY cfg (target_y cfg gid) * NX cfg (pixel_x cfg gid)"

text \<open>
  What the forward pass of max pooling records: for every output element the offset of
  the maximum of its window, so an offset inside that window.
\<close>

definition argmax_offsets :: "pooling_config \<Rightarrow> nat \<Rightarrow> int list \<Rightarrow> bool" where
  "argmax_offsets cfg n h_offs =
     (length h_offs = n \<and> list_all (\<lambda>idx. h_offs ! idx \<in> set (window_cells cfg idx)) [0..<n])"

section \<open>Weight update\<close>

text \<open>
  The compile-time macros of the gradient-descent kernels: the two switches, and the
  weight matrix size (\<open>Y\<close> neurons, \<open>H\<close> inputs per neuron).
\<close>

record gd_config =
  USE_ORTHO :: int
  WEIGHTS_TRANSPOSED :: int
  H :: int
  Y :: int

text \<open>
  Modelled from the spec: \<open>gradient_step_l12\<close> is defined in
  \<open>gradient_descent_common\<close>, which is not among the sources. The spec describes it as
  the blend of the L1 and L2 regularization gradients by the mixing coefficient
  \<open>l1_vs_l2\<close> (0 = pure L2, \<open>factor * weight\<close>; 1 = pure L1, \<open>factor * sign(weight)\<close>).
\<close>

definition gradient_step_l12 :: "dtype \<Rightarrow> dtype \<Rightarrow> dtype \<Rightarrow> dtype" where
  "gradient_step_l12 weight factor l1_vs_l2 =
     factor * ((1 - l1_vs_l2) * weight + l1_vs_l2 * sgn weight)"

text \<open>
  \<open>gradient_step_ortho\<close> (in \<open>weights_ortho\<close>, not among the sources) is a parameter
  of the model: a function of the weight, the factor, a column index, \<open>Y\<close> and the
  column sums.
\<close>

type_synonym ortho_step = "dtype \<Rightarrow> dtype \<Rightarrow> int \<Rightarrow> int \<Rightarrow> dtype list \<Rightarrow> dtype"

text \<open>The value \<open>gd\<close> of \<open>weights_update.store_output\<close>.\<close>

definition gd ::
  "gd_config \<Rightarrow> ortho_step \<Rightarrow> nat \<Rightarrow> dtype \<Rightarrow> dtype \<Rightarrow> dtype \<Rightarrow> dtype \<Rightarrow> dtype \<Rightarrow> dtype
     \<Rightarrow> dtype list \<Rightarrow> dtype" where
  "gd cfg gradient_step_ortho idx sum_v weight lr factor_l12 l1_vs_l2 factor_ortho col_sums =
     (if USE_ORTHO cfg > 0 then
        (if WEIGHTS_TRANSPOSED cfg > 0 then
           - lr * (sum_v + gradient_step_l12 weight factor_l12 l1_vs_l2
                     + gradient_step_ortho weight factor_ortho (int idx div Y cfg) (Y cfg) col_sums)
         else
           - lr * (sum_v + gradient_step_l12 weight factor_l12 l1_vs_l2
                     + gradient_step_ortho weight factor_ortho (int idx mod H cfg) (Y cfg) col_sums))
      else - lr * (sum_v + gradient_step_l12 weight factor_l12 l1_vs_l2))"

text \<open>
  Modelled from the spec: the store that follows (\<open>gradient_descent.store_output\<close>) is
  not among the sources. By the spec the weight moves by the delta \<open>gd\<close>; when the
  momentum is positive the applied delta is the momentum-blended gradient instead,
  whose formula the spec does not give: it is the parameter \<open>blend\<close>, a function of
  the momentum, the stored blended gradient and \<open>gd\<close>.
\<close>

definition store_output ::
  "(dtype \<Rightarrow> dtype \<Rightarrow> dtype \<Rightarrow> dtype) \<Rightarrow> dtype \<Rightarrow> dtype list \<Rightarrow> nat \<Rightarrow> dtype \<Rightarrow> dtype
     \<Rightarrow> dtype option" where
  "store_output blend moment gradient_with_moment idx weight delta =
     (if moment > 0
      then (case read_at gradient_with_moment (int idx) of
              None \<Rightarrow> None
            | Some g \<Rightarrow> Some (weight + blend moment g delta))
      else Some (weight + delta))"

text \<open>
  One work item of the kernel \<open>weights_update\<close>: it reads \<open>gradient[idx]\<close> and
  \<open>weights[idx]\<close> and stores the new weight. (What the absent store writes to the
  two gradient buffers is not modelled.) The index arithmetic \<open>idx / Y\<close> and
  \<open>idx % H\<close> is the unsigned one of the kernel for positive \<open>Y\<close> and \<open>H\<close>.
\<close>

definition weights_update ::
  "gd_config \<Rightarrow> ortho_step \<Rightarrow> (dtype \<Rightarrow> dtype \<Rightarrow> dtype \<Rightarrow> dtype) \<Rightarrow> dtype list \<Rightarrow> dtype list
     \<Rightarrow> dtype list \<Rightarrow> dtype \<Rightarrow> dtype \<Rightarrow> dtype \<Rightarrow> dtype \<Rightarrow> dtype \<Rightarrow> dtype list \<Rightarrow> nat
     \<Rightarrow> dtype list option" where
  "weights_update cfg gradient_step_ortho blend weights gradient gradient_with_moment
       lr factor_l12 l1_vs_l2 moment factor_ortho col_sums idx =
     (case read_at gradient (int idx) of
        None \<Rightarrow> None
      | Some sum_v \<Rightarrow>
          (case read_at weights (int idx) of
             None \<Rightarrow> None
           | Some weight \<Rightarrow>
               (case store_output blend moment gradient_with_moment idx weight
                       (gd cfg gradient_step_ortho idx sum_v weight lr factor_l12 l1_vs_l2
                          factor_ortho col_sums) of
                  None \<Rightarrow> None
                | Some weight' \<Rightarrow> write_at weights (int idx) weight')))"

text \<open>The three terms of the update, as the spec names them.\<close>

definition L1L2Penalty :: "dtype \<Rightarrow> dtype \<Rightarrow> dtype \<Rightarrow> dtype" where
  "L1L2Penalty weight factor_l12 l1_vs_l2 = gradient_step_l12 weight factor_l12 l1_vs_l2"

definition column_index :: "gd_config \<Rightarrow> nat \<Rightarrow> int" where
  "column_index cfg idx = (if WEIGHTS_TRANSPOSED cfg > 0 then int idx div Y cfg else int idx mod H cfg)"

definition OrthogonalityPenalty ::
  "gd_config \<Rightarrow> ortho_step \<Rightarrow> nat \<Rightarrow> dtype \<Rightarrow> dtype \<Rightarrow> dtype list \<Rightarrow> dtype" where
  "OrthogonalityPenalty cfg gradient_step_ortho idx weight factor_ortho col_sums =
     (if USE_ORTHO cfg > 0
      then gradient_step_ortho weight factor_ortho (column_index cfg idx) (Y cfg) col_sums
      else 0)"

definition cfg_ortho :: gd_config where
  "cfg_ortho = \<lparr>USE_ORTHO = 1, WEIGHTS_TRANSPOSED = 0, H = 3, Y = 2\<rparr>"

definition cfg_ortho_t :: gd_config where
  "cfg_ortho_t = \<lparr>USE_ORTHO = 1, WEIGHTS_TRANSPOSED = 1, H = 3, Y = 2\<rparr>"

definition cfg_plain :: gd_config where
  "cfg_plain = \<lparr>USE_ORTHO = 0, WEIGHTS_TRANSPOSED = 0, H = 3, Y = 2\<rparr>"

text \<open>A sample orthogonality step for the concrete runs: it returns the column sum the
  index selects.\<close>

definition sample_ortho :: ortho_step where
  "sample_ortho weight factor col y col_sums = factor * (col_sums ! nat col)"

section \<open>Errors\<close>

text \<open>
  The error kinds the spec names for configuration and parameter injection, and two
  more for a kernel that cannot be built: the template engine raising while it renders,
  and the device compiler rejecting the rendered text for a reason other than
  \<open>#error\<close>.
\<close>

datatype error =
    ConfigurationError string
  | TypeMismatch string
  | RenderFailure string
  | BackendFailure string

section \<open>The denormalization kernel template\<close>

text \<open>
  The template \<open>denormalization.jcu\<close> has two inputs: the mode \<open>normalization\<close> and
  the list \<open>coeffs\<close>. An element of \<open>coeffs\<close> is a number or a sequence of numbers.
  The template indexes \<open>coeffs\<close>, joins sequences and, for \<open>range_linear\<close>, does
  arithmetic on numbers while it renders; the template engine is not part of the
  sources, and the model lets each of these steps fail as values do in the template
  language: an index beyond the list, a join of a number, arithmetic on a sequence and
  a division by zero end the rendering with an error.
\<close>

datatype coeff = Num dtype | Vec "dtype list"


definition num_at :: "coeff list \<Rightarrow> nat \<Rightarrow> error + dtype" where
  "num_at coeffs i =
     (if i < length coeffs
      then (case coeffs ! i of
              Num x \<Rightarrow> Inr x
            | Vec xs \<Rightarrow> Inl (RenderFailure ''arithmetic on a sequence''))
      else Inl (RenderFailure ''coeffs index out of range''))"



datatype expr =
    Src
  | ArrayAt string
  | Scalar string
  | Minus expr expr
  | Plus expr expr
  | Times expr expr
  | Divide expr expr

datatype body = Return expr | ErrorDirective string













definition coeff_is_num :: "coeff list \<Rightarrow> nat \<Rightarrow> bool" where
  "coeff_is_num coeffs i = (i < length coeffs \<and> (case coeffs ! i of Num x \<Rightarrow> True | Vec xs \<Rightarrow> False))"







section \<open>The All2All unit\<close>

text \<open>
  The fields the constructor of \<open>All2All\<close> binds to parameter names. Their declarations
  (\<open>all2all.h\<close>) are not among the sources: the two tensors are arrays of \<open>float\<close>, as
  \<open>Execute\<close> uses them, and the two lengths are sizes, initialised to 0. A member
  \<open>name_\<close> of the class is written \<open>name_m\<close>.
\<close>

record All2All =
  weights_m :: "dtype list"
  bias_m :: "dtype list"
  weights_length_m :: nat
  bias_length_m :: nat

text \<open>
  Modelled from the spec: a parameter value reaches the unit as an opaque pointer
  (\<open>std::shared_ptr<const void>\<close>); by the spec it carries a runtime type
  discriminator, so it is a tagged variant.
\<close>

datatype opaque_value = FloatArray "dtype list" | Size nat | Text string

datatype value_type = FloatArrayType | SizeType | TextType

fun type_of :: "opaque_value \<Rightarrow> value_type" where
  "type_of (FloatArray xs) = FloatArrayType"
| "type_of (Size n) = SizeType"
| "type_of (Text s) = TextType"

type_synonym setter = "opaque_value \<Rightarrow> All2All \<Rightarrow> error + All2All"

text \<open>
  Modelled from the spec: \<open>Attribute::GetSetter\<close> (\<open>attribute.h\<close>) is not among the
  sources. By the spec the setter it returns writes the value into the target field
  after a type check and fails with a TypeMismatch error when the value's dynamic type
  is not the field's. There is one instance for each field type.
\<close>

definition GetSetter_array :: "(dtype list \<Rightarrow> All2All \<Rightarrow> All2All) \<Rightarrow> setter" where
  "GetSetter_array assign v u =
     (case v of FloatArray xs \<Rightarrow> Inr (assign xs u)
      | _ \<Rightarrow> Inl (TypeMismatch ''expected an array of float''))"

definition GetSetter_size :: "(nat \<Rightarrow> All2All \<Rightarrow> All2All) \<Rightarrow> setter" where
  "GetSetter_size assign v u =
     (case v of Size n \<Rightarrow> Inr (assign n u)
      | _ \<Rightarrow> Inl (TypeMismatch ''expected a size''))"

text \<open>The constructor: the table of setters, and the two lengths set to 0.\<close>

definition setters_m :: "(string \<times> setter) list" where
  "setters_m =
     [(''weights'', GetSetter_array (\<lambda>xs u. u\<lparr>weights_m := xs\<rparr>)),
      (''bias'', GetSetter_array (\<lambda>xs u. u\<lparr>bias_m := xs\<rparr>)),
      (''weights_length'', GetSetter_size (\<lambda>n u. u\<lparr>weights_length_m := n\<rparr>)),
      (''bias_length'', GetSetter_size (\<lambda>n u. u\<lparr>bias_length_m := n\<rparr>))]"

definition All2All_new :: All2All where
  "All2All_new = \<lparr>weights_m = [], bias_m = [], weights_length_m = 0, bias_length_m = 0\<rparr>"

definition SetParameter :: "string \<Rightarrow> opaque_value \<Rightarrow> All2All \<Rightarrow> error + All2All" where
  "SetParameter name v u =
     (case map_of setters_m name of
        None \<Rightarrow> Inr u
      | Some setter \<Rightarrow> setter v u)"

text \<open>The registered names, and the type each bound field expects.\<close>

definition registered :: "string set" where
  "registered = {''weights'', ''bias'', ''weights_length'', ''bias_length''}"

definition expected_type :: "string \<Rightarrow> value_type" where
  "expected_type name =
     (if name = ''weights'' \<or> name = ''bias'' then FloatArrayType else SizeType)"

section \<open>All2All forward\<close>

text \<open>
  Modelled from the spec: \<open>InputCount\<close> and \<open>OutputCount\<close> are declared outside the
  sources. By the spec the weight matrix is input_count x output_count and the bias has
  output_count elements, so the output count is the bias length and the input count is
  the weights length divided by it.
\<close>

definition OutputCount :: "All2All \<Rightarrow> nat" where
  "OutputCount u = bias_length_m u"

definition InputCount :: "All2All \<Rightarrow> nat" where
  "InputCount u = (if bias_length_m u = 0 then 0 else weights_length_m u div bias_length_m u)"

text \<open>
  Modelled from the spec: \<open>matrix_multiply_transposed\<close> and \<open>matrix_add\<close> belong to
  the simd library, which is not among the sources. By the spec the weights are stored
  as input_count rows x output_count columns, and the transposed multiply treats them as
  output_count x input_count against the input column vector. So for row-major \<open>m1\<close>
  of \<open>r1\<close> rows and \<open>c1\<close> columns and \<open>m2\<close> of \<open>r2\<close> rows and \<open>c2\<close>
  columns the result is the product of \<open>m2\<close> transposed with \<open>m1\<close>, \<open>c2\<close> rows of
  \<open>c1\<close> columns, written to the front of \<open>res\<close>. \<open>matrix_add\<close> adds two \<open>w * h\<close>
  matrices element by element. A matrix that does not fit its buffer is an access outside
  the buffer: \<open>None\<close>.
\<close>

definition matrix_multiply_transposed ::
  "dtype list \<Rightarrow> dtype list \<Rightarrow> nat \<Rightarrow> nat \<Rightarrow> nat \<Rightarrow> nat \<Rightarrow> dtype list \<Rightarrow> dtype list option" where
  "matrix_multiply_transposed m1 m2 r1 c1 r2 c2 res =
     (if r1 = r2 \<and> r1 * c1 \<le> length m1 \<and> r2 * c2 \<le> length m2 \<and> c2 * c1 \<le> length res
      then Some (concat (map (\<lambda>j. map (\<lambda>i.
                   sum_list (map (\<lambda>k. m2 ! (k * c2 + j) * m1 ! (k * c1 + i)) [0..<r2]))
                 [0..<c1]) [0..<c2]) @ drop (c2 * c1) res)
      else None)"

definition matrix_add ::
  "dtype list \<Rightarrow> dtype list \<Rightarrow> nat \<Rightarrow> nat \<Rightarrow> dtype list \<Rightarrow> dtype list option" where
  "matrix_add m1 m2 w h res =
     (if w * h \<le> length m1 \<and> w * h \<le> length m2 \<and> w * h \<le> length res
      then Some (map (\<lambda>i. m1 ! i + m2 ! i) [0..<w * h] @ drop (w * h) res)
      else None)"

text \<open>
  Modelled from the spec: \<open>ApplyActivationFunction\<close> is supplied by the concrete unit
  kind; by the spec it applies the unit's activation function (identity, tanh, ...) to
  every element. The function is a parameter of the model.
\<close>

definition ApplyActivationFunction ::
  "(dtype \<Rightarrow> dtype) \<Rightarrow> dtype list \<Rightarrow> nat \<Rightarrow> dtype list option" where
  "ApplyActivationFunction activation data n =
     (if n \<le> length data then Some (map activation (take n data) @ drop n data) else None)"

text \<open>
  \<open>Execute\<close>. The method is \<open>const\<close> and assigns no member, so the unit comes back as
  it went in, next to the new contents of \<open>out\<close>. \<open>tmp\<close> is fresh memory of
  \<open>output_count\<close> elements whose contents are arbitrary: \<open>garbage\<close> supplies them.
\<close>

definition Execute ::
  "(dtype \<Rightarrow> dtype) \<Rightarrow> (nat \<Rightarrow> dtype) \<Rightarrow> All2All \<Rightarrow> dtype list \<Rightarrow> dtype list
     \<Rightarrow> (All2All \<times> dtype list) option" where
  "Execute activation garbage u in_v out =
     (let input_count = InputCount u;
          output_count = OutputCount u;
          tmp = map garbage [0..<output_count]
      in case matrix_multiply_transposed in_v (weights_m u) input_count 1 input_count
                output_count tmp of
           None \<Rightarrow> None
         | Some tmp' \<Rightarrow>
             (case matrix_add tmp' (bias_m u) 1 output_count out of
                None \<Rightarrow> None
              | Some out' \<Rightarrow>
                  (case ApplyActivationFunction activation out' output_count of
                     None \<Rightarrow> None
                   | Some out'' \<Rightarrow> Some (u, out''))))"

text \<open>
  The matrix \<open>W\<close> of the spec, input_count rows of output_count columns stored row by
  row, and component \<open>j\<close> of \<open>W\<^sup>T x + b\<close>.
\<close>

definition W :: "All2All \<Rightarrow> nat \<Rightarrow> nat \<Rightarrow> dtype" where
  "W u k j = weights_m u ! (k * OutputCount u + j)"

definition WT_x_plus_b :: "All2All \<Rightarrow> dtype list \<Rightarrow> nat \<Rightarrow> dtype" where
  "WT_x_plus_b u x j = (\<Sum>k < InputCount u. W u k j * x ! k) + bias_m u ! j"

text \<open>A unit with three inputs and two outputs for the concrete runs.\<close>

definition unit32 :: All2All where
  "unit32 = \<lparr>weights_m = [1, 2, 3, 4, 5, 6], bias_m = [10, 20],
             weights_length_m = 6, bias_length_m = 2\<rparr>"

section \<open>Properties of max pooling, backward\<close>


lemma gd_max_pooling_item_direct:
  assumes "direct_write cfg" "idx < length err_y" "idx < length h_offs"
    "0 \<le> h_offs ! idx" "h_offs ! idx < int (length err_h)"
  shows "gd_max_pooling_item cfg err_y h_offs idx err_h =
           Some (err_h[nat (h_offs ! idx) := err_y ! idx])"
  using assms by (simp add: gd_max_pooling_item_def read_at_def write_at_def)

lemma gd_max_pooling_item_atomic:
  assumes "\<not> direct_write cfg" "idx < length err_y" "idx < length h_offs"
    "0 \<le> h_offs ! idx" "h_offs ! idx < int (length err_h)"
  shows "gd_max_pooling_item cfg err_y h_offs idx err_h =
           Some (err_h[nat (h_offs ! idx) := err_h ! nat (h_offs ! idx) + err_y ! idx])"
  using assms by (simp add: gd_max_pooling_item_def read_at_def write_at_def ATOM_ADD_def)

lemma offsets_in_range_nth:
  assumes "offsets_in_range n m h_offs" "i < n"
  shows "0 \<le> h_offs ! i" "h_offs ! i < int m" "nat (h_offs ! i) < m"
  using assms by (auto simp: offsets_in_range_def list_all_length)

lemma launch_direct_fold:
  assumes "direct_write cfg" "offsets_in_range n (length err_h) h_offs" "length err_y = n"
    "\<forall>i\<in>set js. i < n"
  shows "launch (gd_max_pooling_item cfg err_y h_offs) js err_h =
           Some (fold (\<lambda>i h. h[nat (h_offs ! i) := err_y ! i]) js err_h)"
  using assms
proof (induction js arbitrary: err_h)
  case Nil
  then show ?case by simp
next
  case (Cons j js)
  have j: "j < n" using Cons.prems by simp
  have len: "length h_offs = n" using Cons.prems by (simp add: offsets_in_range_def)
  have step: "gd_max_pooling_item cfg err_y h_offs j err_h =
           Some (err_h[nat (h_offs ! j) := err_y ! j])"
    using gd_max_pooling_item_direct[of cfg j err_y h_offs err_h] Cons.prems j len
      offsets_in_range_nth[of n "length err_h" h_offs j] by simp
  have "offsets_in_range n (length (err_h[nat (h_offs ! j) := err_y ! j])) h_offs"
    using Cons.prems by simp
  then show ?case using Cons step by simp
qed

lemma launch_atomic_fold:
  assumes "\<not> direct_write cfg" "offsets_in_range n (length err_h) h_offs" "length err_y = n"
    "\<forall>i\<in>set js. i < n"
  shows "launch (gd_max_pooling_item cfg err_y h_offs) js err_h =
           Some (fold (\<lambda>i h. h[nat (h_offs ! i) := h ! nat (h_offs ! i) + err_y ! i]) js err_h)"
  using assms
proof (induction js arbitrary: err_h)
  case Nil
  then show ?case by simp
next
  case (Cons j js)
  have j: "j < n" using Cons.prems by simp
  have len: "length h_offs = n" using Cons.prems by (simp add: offsets_in_range_def)
  have step: "gd_max_pooling_item cfg err_y h_offs j err_h =
           Some (err_h[nat (h_offs ! j) := err_h ! nat (h_offs ! j) + err_y ! j])"
    using gd_max_pooling_item_atomic[of cfg j err_y h_offs err_h] Cons.prems j len
      offsets_in_range_nth[of n "length err_h" h_offs j] by simp
  have "offsets_in_range n (length (err_h[nat (h_offs ! j) := err_h ! nat (h_offs ! j) + err_y ! j])) h_offs"
    using Cons.prems by simp
  then show ?case using Cons step by simp
qed

lemma length_fold_upd: "length (fold (\<lambda>i h. h[q i := g i h]) js h) = length h"
  by (induction js arbitrary: h) auto

lemma fold_upd_frame:
  "p \<notin> q ` set js \<Longrightarrow> fold (\<lambda>i h. h[q i := g i h]) js h ! p = h ! p"
  by (induction js arbitrary: h) auto

lemma fold_store_hit:
  assumes "distinct (map q js)" "j \<in> set js" "q j < length h"
  shows "fold (\<lambda>i h. h[q i := e i]) js h ! q j = e j"
  using assms
proof (induction js arbitrary: h)
  case Nil
  then show ?case by simp
next
  case (Cons a js)
  show ?case
  proof (cases "j = a")
    case True
    have "q a \<notin> q ` set js" using Cons.prems(1) by auto
    then have "fold (\<lambda>i h. h[q i := e i]) js (h[q a := e a]) ! q a = (h[q a := e a]) ! q a"
      using fold_upd_frame[of "q a" q js "\<lambda>i h. e i" "h[q a := e a]"] by simp
    then show ?thesis using True Cons.prems by simp
  next
    case False
    then have "j \<in> set js" using Cons.prems by simp
    then show ?thesis using Cons by simp
  qed
qed

lemma fold_add_nth:
  fixes h :: "('a::comm_monoid_add) list"
  assumes "p < length h"
  shows "fold (\<lambda>i h. h[q i := h ! q i + e i]) js h ! p =
           h ! p + sum_list (map e (filter (\<lambda>i. q i = p) js))"
  using assms
proof (induction js arbitrary: h)
  case Nil
  then show ?case by simp
next
  case (Cons a js)
  then show ?case by (simp add: add.assoc)
qed

lemma is_schedule_set: "is_schedule n sched \<Longrightarrow> set sched = {0..<n}"
  by (metis is_schedule_def set_sort set_upt)

lemma is_schedule_distinct: "is_schedule n sched \<Longrightarrow> distinct sched"
  by (metis is_schedule_def distinct_sort distinct_upt)


lemma nat_offsets_inj:
  assumes "offsets_in_range n m h_offs" "distinct h_offs"
  shows "inj_on (\<lambda>i. nat (h_offs ! i)) {0..<n}"
proof (rule inj_onI)
  fix i j assume ij: "i \<in> {0..<n}" "j \<in> {0..<n}" and eq: "nat (h_offs ! i) = nat (h_offs ! j)"
  have len: "length h_offs = n" using assms(1) by (simp add: offsets_in_range_def)
  have "h_offs ! i = h_offs ! j"
    using eq offsets_in_range_nth(1)[OF assms(1), of i] offsets_in_range_nth(1)[OF assms(1), of j] ij
    by simp
  then show "i = j" using assms(2) ij len by (simp add: nth_eq_iff_index_eq)
qed

lemma direct_pass_result:
  assumes dw: "direct_write cfg" and rng: "offsets_in_range n (length err_h) h_offs"
    and len: "length err_y = n" and sch: "is_schedule n sched"
  shows "\<exists>r. gd_max_pooling cfg err_y h_offs sched err_h = Some r \<and> length r = length err_h \<and>
           (\<forall>p < length err_h. int p \<notin> set h_offs \<longrightarrow> r ! p = err_h ! p) \<and>
           (distinct h_offs \<longrightarrow> (\<forall>i < n. r ! nat (h_offs ! i) = err_y ! i))"
proof -
  let ?q = "\<lambda>i. nat (h_offs ! i)"
  let ?r = "fold (\<lambda>i h. h[?q i := err_y ! i]) sched err_h"
  have set_s: "set sched = {0..<n}" and dist_s: "distinct sched"
    using sch is_schedule_set is_schedule_distinct by auto
  have hlen: "length h_offs = n" using rng by (simp add: offsets_in_range_def)
  have run: "gd_max_pooling cfg err_y h_offs sched err_h = Some ?r"
    unfolding gd_max_pooling_def
    using launch_direct_fold[OF dw rng len, of sched] set_s by simp
  have lr: "length ?r = length err_h" by (rule length_fold_upd)
  have frame: "?r ! p = err_h ! p" if "p < length err_h" "int p \<notin> set h_offs" for p
  proof -
    have "p \<notin> ?q ` set sched"
    proof
      assume "p \<in> ?q ` set sched"
      then obtain i where i: "i < n" "p = ?q i" using set_s by auto
      then have "int p = h_offs ! i" using offsets_in_range_nth(1)[OF rng i(1)] by simp
      then show False using that(2) i(1) hlen by (metis nth_mem)
    qed
    then show ?thesis by (rule fold_upd_frame)
  qed
  have hit: "?r ! ?q i = err_y ! i" if "distinct h_offs" "i < n" for i
  proof -
    have "inj_on ?q (set sched)" using nat_offsets_inj[OF rng that(1)] set_s by simp
    then have "distinct (map ?q sched)" using dist_s by (simp add: distinct_map)
    moreover have "i \<in> set sched" using that(2) set_s by simp
    moreover have "?q i < length err_h" using offsets_in_range_nth(3)[OF rng that(2)] .
    ultimately show ?thesis by (rule fold_store_hit)
  qed
  show ?thesis using run lr frame hit by blast
qed

lemma atomic_pass_result:
  fixes err_y :: "('a::comm_monoid_add) list"
  assumes dw: "\<not> direct_write cfg" and rng: "offsets_in_range n (length err_h) h_offs"
    and len: "length err_y = n" and sch: "is_schedule n sched"
  shows "\<exists>r. gd_max_pooling cfg err_y h_offs sched err_h = Some r \<and> length r = length err_h \<and>
           (\<forall>p < length err_h.
              r ! p = err_h ! p + (\<Sum>i | i < n \<and> h_offs ! i = int p. err_y ! i))"
proof -
  let ?q = "\<lambda>i. nat (h_offs ! i)"
  let ?r = "fold (\<lambda>i h. h[?q i := h ! ?q i + err_y ! i]) sched err_h"
  have set_s: "set sched = {0..<n}" and dist_s: "distinct sched"
    using sch is_schedule_set is_schedule_distinct by auto
  have run: "gd_max_pooling cfg err_y h_offs sched err_h = Some ?r"
    unfolding gd_max_pooling_def
    using launch_atomic_fold[OF dw rng len, of sched] set_s by simp
  have lr: "length ?r = length err_h" by (rule length_fold_upd)
  have val: "?r ! p = err_h ! p + (\<Sum>i | i < n \<and> h_offs ! i = int p. err_y ! i)"
    if "p < length err_h" for p
  proof -
    have "?r ! p = err_h ! p + sum_list (map (\<lambda>i. err_y ! i) (filter (\<lambda>i. ?q i = p) sched))"
      using that by (rule fold_add_nth)
    also have "sum_list (map (\<lambda>i. err_y ! i) (filter (\<lambda>i. ?q i = p) sched)) =
        sum (\<lambda>i. err_y ! i) (set (filter (\<lambda>i. ?q i = p) sched))"
      using dist_s by (simp add: sum_list_distinct_conv_sum_set)
    also have "set (filter (\<lambda>i. ?q i = p) sched) = {i. i < n \<and> h_offs ! i = int p}"
      using set_s offsets_in_range_nth(1)[OF rng] by auto
    finally show ?thesis .
  qed
  show ?thesis using run lr val by blast
qed




lemma sum_list_scattered:
  fixes r :: "('a::comm_monoid_add) list"
  assumes inj: "inj_on q {0..<n}" and rng: "\<forall>i<n. q i < length r"
    and hit: "\<forall>i<n. r ! q i = e ! i" and miss: "\<forall>p<length r. p \<notin> q ` {0..<n} \<longrightarrow> r ! p = 0"
    and len: "length e = n"
  shows "sum_list r = sum_list e"
proof -
  have "sum_list r = (\<Sum>p = 0..<length r. r ! p)" by (rule sum_list_sum_nth)
  also have "\<dots> = (\<Sum>p \<in> q ` {0..<n}. r ! p)"
    by (rule sum.mono_neutral_right) (use rng miss in auto)
  also have "\<dots> = (\<Sum>i = 0..<n. r ! q i)" using inj by (simp add: sum.reindex)
  also have "\<dots> = (\<Sum>i = 0..<n. e ! i)" using hit by simp
  also have "\<dots> = sum_list e" using len by (simp add: sum_list_sum_nth)
  finally show ?thesis .
qed

lemma direct_pass_conservation:
  fixes err_y :: "('a::comm_monoid_add) list"
  assumes dw: "direct_write cfg" and rng: "offsets_in_range n m h_offs"
    and dist: "distinct h_offs" and len: "length err_y = n" and sch: "is_schedule n sched"
  shows "\<exists>r. gd_max_pooling cfg err_y h_offs sched (replicate m 0) = Some r \<and> length r = m \<and>
           (\<forall>i<n. r ! nat (h_offs ! i) = err_y ! i) \<and>
           (\<forall>p<m. int p \<notin> set h_offs \<longrightarrow> r ! p = 0) \<and>
           (\<forall>k<n. \<forall>e. err_y = (replicate n 0)[k := e] \<longrightarrow>
                r = (replicate m 0)[nat (h_offs ! k) := e]) \<and>
           sum_list r = sum_list err_y"
proof -
  let ?q = "\<lambda>i. nat (h_offs ! i)"
  have rng': "offsets_in_range n (length (replicate m (0::'a))) h_offs" using rng by simp
  obtain r where run: "gd_max_pooling cfg err_y h_offs sched (replicate m 0) = Some r"
    and lr: "length r = m"
    and frame: "\<forall>p<m. int p \<notin> set h_offs \<longrightarrow> r ! p = 0"
    and hit: "\<forall>i<n. r ! ?q i = err_y ! i"
    using direct_pass_result[OF dw rng' len sch] dist by auto
  have hlen: "length h_offs = n" using rng by (simp add: offsets_in_range_def)
  have inj: "inj_on ?q {0..<n}" by (rule nat_offsets_inj[OF rng dist])
  have qlt: "\<forall>i<n. ?q i < length r" using offsets_in_range_nth(3)[OF rng] lr by simp
  have miss: "\<forall>p<length r. p \<notin> ?q ` {0..<n} \<longrightarrow> r ! p = 0"
  proof (intro allI impI)
    fix p assume p: "p < length r" "p \<notin> ?q ` {0..<n}"
    have "int p \<notin> set h_offs"
    proof
      assume "int p \<in> set h_offs"
      then obtain i where "i < n" "h_offs ! i = int p" using hlen by (metis in_set_conv_nth)
      then have "p \<in> ?q ` {0..<n}" by force
      then show False using p(2) by simp
    qed
    then show "r ! p = 0" using frame p(1) lr by simp
  qed
  have total: "sum_list r = sum_list err_y"
    by (rule sum_list_scattered[OF inj qlt hit miss len])
  have impulse: "r = (replicate m 0)[?q k := e]"
    if k: "k < n" and ey: "err_y = (replicate n 0)[k := e]" for k e
  proof (rule nth_equalityI)
    show "length r = length ((replicate m (0::'a))[?q k := e])" using lr by simp
  next
    fix p assume p: "p < length r"
    show "r ! p = (replicate m 0)[?q k := e] ! p"
    proof (cases "p \<in> ?q ` {0..<n}")
      case False
      then have "r ! p = 0" using miss p by simp
      moreover have "p \<noteq> ?q k" using False k by auto
      ultimately show ?thesis using p lr by simp
    next
      case True
      then obtain i where i: "i < n" "p = ?q i" by auto
      have rp: "r ! p = err_y ! i" using hit i by simp
      show ?thesis
      proof (cases "i = k")
        case True
        then show ?thesis using rp i ey k p lr by simp
      next
        case False
        then have "?q i \<noteq> ?q k" using inj i(1) k by (auto dest: inj_onD)
        then show ?thesis using rp i ey k p lr False by simp
      qed
    qed
  qed
  show ?thesis using run lr hit frame impulse total by blast
qed

text \<open>
  C3. Max pooling backward sends \<open>err_y[idx]\<close> to the one cell \<open>h_offs[idx]\<close> of
  \<open>err_h\<close>. \<open>USE_ATOMICS\<close> is set exactly when the direct-write condition fails;
  without it the work item stores \<open>err_y[idx]\<close>, with it the work item adds
  \<open>err_y[idx]\<close> to the cell. With atomics, on a zero-filled \<open>err_h\<close> and in any
  order of the work items, every cell ends as the sum of the errors whose recorded
  offset it is.
\<close>

theorem gd_max_pooling_scatter:
  fixes err_y :: "('a::comm_monoid_add) list"
  assumes rng: "offsets_in_range (length err_y) (length err_h) h_offs"
  shows "(USE_ATOMICS cfg \<longleftrightarrow> \<not> direct_write cfg) \<and>
         (\<forall>idx < length err_y.
            gd_max_pooling_item cfg err_y h_offs idx err_h =
              (if USE_ATOMICS cfg
               then Some (err_h[nat (h_offs ! idx) := err_h ! nat (h_offs ! idx) + err_y ! idx])
               else Some (err_h[nat (h_offs ! idx) := err_y ! idx]))) \<and>
         (\<forall>sched. USE_ATOMICS cfg \<and> is_schedule (length err_y) sched \<and>
              err_h = replicate (length err_h) 0 \<longrightarrow>
            (\<exists>r. gd_max_pooling cfg err_y h_offs sched err_h = Some r \<and>
                 length r = length err_h \<and>
                 (\<forall>p < length err_h.
                    r ! p = (\<Sum>i | i < length err_y \<and> h_offs ! i = int p. err_y ! i))))"
proof (intro conjI allI impI)
  show flag: "USE_ATOMICS cfg \<longleftrightarrow> \<not> direct_write cfg"
    by (auto simp: USE_ATOMICS_def direct_write_def)
  have hlen: "length h_offs = length err_y" using rng by (simp add: offsets_in_range_def)
  show "gd_max_pooling_item cfg err_y h_offs idx err_h =
          (if USE_ATOMICS cfg
           then Some (err_h[nat (h_offs ! idx) := err_h ! nat (h_offs ! idx) + err_y ! idx])
           else Some (err_h[nat (h_offs ! idx) := err_y ! idx]))"
    if "idx < length err_y" for idx
  proof (cases "direct_write cfg")
    case True
    then show ?thesis
      using gd_max_pooling_item_direct[of cfg idx err_y h_offs err_h] that hlen flag
        offsets_in_range_nth[OF rng that] by simp
  next
    case False
    then show ?thesis
      using gd_max_pooling_item_atomic[of cfg idx err_y h_offs err_h] that hlen flag
        offsets_in_range_nth[OF rng that] by simp
  qed
  show "\<exists>r. gd_max_pooling cfg err_y h_offs sched err_h = Some r \<and>
                 length r = length err_h \<and>
                 (\<forall>p < length err_h.
                    r ! p = (\<Sum>i | i < length err_y \<and> h_offs ! i = int p. err_y ! i))"
    if h: "USE_ATOMICS cfg \<and> is_schedule (length err_y) sched \<and>
              err_h = replicate (length err_h) 0" for sched
  proof -
    have nd: "\<not> direct_write cfg" using h flag by simp
    obtain r where r: "gd_max_pooling cfg err_y h_offs sched err_h = Some r"
      "length r = length err_h"
      "\<forall>p < length err_h.
              r ! p = err_h ! p + (\<Sum>i | i < length err_y \<and> h_offs ! i = int p. err_y ! i)"
      using atomic_pass_result[OF nd rng refl, of sched] h by blast
    have z: "err_h ! p = 0" if "p < length err_h" for p
      using h that by (metis nth_replicate)
    show ?thesis using r z by auto
  qed
qed

theorem gd_max_pooling_scatter_witness:
  "offsets_in_range (length [1, 2, 4 :: int]) (length [0, 0, 0, 0, 0 :: int]) [2, 4, 2] \<and>
   USE_ATOMICS cfg_overlap \<and> \<not> direct_write cfg_overlap \<and>
   gd_max_pooling_item cfg_overlap [1, 2, 4 :: int] [2, 4, 2] 1 [0, 0, 0, 0, 0] =
     Some [0, 0, 0, 0, 2] \<and>
   \<not> USE_ATOMICS cfg_disjoint \<and>
   gd_max_pooling_item cfg_disjoint [1, 2, 4 :: int] [2, 4, 2] 1 [9, 9, 9, 9, 9] =
     Some [9, 9, 9, 9, 2] \<and>
   is_schedule 3 [2, 0, 1] \<and>
   gd_max_pooling cfg_overlap [1, 2, 4 :: int] [2, 4, 2] [2, 0, 1] [0, 0, 0, 0, 0] =
     Some [0, 0, 5, 0, 2]"
  using gd_max_pooling_scatter[of "[1, 2, 4 :: int]" "[0, 0, 0, 0, 0]" "[2, 4, 2]" cfg_overlap]
    gd_max_pooling_scatter[of "[1, 2, 4 :: int]" "[9, 9, 9, 9, 9]" "[2, 4, 2]" cfg_disjoint]
  by (simp add: direct_write_def USE_ATOMICS_def cfg_disjoint_def cfg_overlap_def
      offsets_in_range_def is_schedule_def gd_max_pooling_def gd_max_pooling_item_def
      read_at_def write_at_def ATOM_ADD_def upt_rec numeral_eq_Suc)

text \<open>
  C10. In the direct-write case the pass touches only the cells listed in \<open>h_offs\<close>:
  a cell of \<open>err_h\<close> whose position does not occur in \<open>h_offs\<close> keeps the value it
  had before the pass. Stale contents therefore survive, and zero-filling \<open>err_h\<close>
  is left to the caller (in the concrete run below the stale sevens are still there
  and the sums differ).
\<close>

theorem gd_max_pooling_frame:
  assumes dw: "direct_write cfg"
    and rng: "offsets_in_range (length err_y) (length err_h) h_offs"
    and sch: "is_schedule (length err_y) sched"
  shows "\<exists>r. gd_max_pooling cfg err_y h_offs sched err_h = Some r \<and> length r = length err_h \<and>
           (\<forall>p < length err_h. int p \<notin> set h_offs \<longrightarrow> r ! p = err_h ! p)"
  using direct_pass_result[OF dw rng refl sch] by blast

theorem gd_max_pooling_frame_witness:
  "direct_write cfg_disjoint \<and>
   offsets_in_range (length [3, 5 :: int]) (length [7, 7, 7, 7 :: int]) [2, 0] \<and>
   is_schedule (length [3, 5 :: int]) [1, 0] \<and>
   gd_max_pooling cfg_disjoint [3, 5 :: int] [2, 0] [1, 0] [7, 7, 7, 7] = Some [5, 7, 3, 7] \<and>
   int 1 \<notin> set [2, 0] \<and> [5, 7, 3, 7 :: int] ! 1 = [7, 7, 7, 7] ! 1 \<and>
   sum_list [5, 7, 3, 7 :: int] \<noteq> sum_list [3, 5]"
  using gd_max_pooling_frame[of cfg_disjoint "[3, 5 :: int]" "[7, 7, 7, 7]" "[2, 0]" "[1, 0]"]
  by (simp add: direct_write_def cfg_disjoint_def
      offsets_in_range_def is_schedule_def gd_max_pooling_def gd_max_pooling_item_def
      read_at_def write_at_def upt_rec numeral_eq_Suc)

section \<open>Properties of average pooling, backward\<close>

lemma store_all_append:
  "store_all cfg (cs @ ds) v h =
     (case store_all cfg cs v h of None \<Rightarrow> None | Some h' \<Rightarrow> store_all cfg ds v h')"
  by (induction cs arbitrary: h) (auto split: option.splits)

lemma cell_less_iff:
  fixes a b c n :: int
  assumes "0 < n" "0 \<le> c" "c < n"
  shows "(a * n + c < b * n) = (a < b)"
proof
  assume "a * n + c < b * n"
  show "a < b"
  proof (rule ccontr)
    assume "\<not> a < b"
    then have "b * n \<le> a * n" using assms(1) by (simp add: mult_right_mono)
    then show False using \<open>a * n + c < b * n\<close> assms(2) by linarith
  qed
next
  assume "a < b"
  then have "(a + 1) * n \<le> b * n" using assms(1) by (intro mult_right_mono) auto
  then show "a * n + c < b * n" using assms(3) by (simp add: algebra_simps)
qed

lemma loop_x_cond:
  assumes "0 < N_CHANNELS cfg" "0 \<le> ch" "ch < N_CHANNELS cfg"
    "x = (px * SLIDE_X cfg + j) * N_CHANNELS cfg + ch"
  shows "(j < KX cfg \<and> (x_exact cfg \<or> x < SX cfg * N_CHANNELS cfg)) = (j < NX cfg px)"
proof (cases "x_exact cfg")
  case True
  then show ?thesis by (simp add: NX_def)
next
  case False
  have "(x < SX cfg * N_CHANNELS cfg) = (px * SLIDE_X cfg + j < SX cfg)"
    unfolding assms(4) using assms(1-3) by (rule cell_less_iff)
  then show ?thesis using False by (auto simp: NX_def)
qed

lemma loop_x_cells:
  assumes "0 < N_CHANNELS cfg" "0 \<le> ch" "ch < N_CHANNELS cfg"
    "x = (px * SLIDE_X cfg + j) * N_CHANNELS cfg + ch"
  shows "loop_x cfg avg offs j x h =
           store_all cfg (map (\<lambda>k. offs + ((px * SLIDE_X cfg + k) * N_CHANNELS cfg + ch))
                            [j..NX cfg px - 1]) avg h"
  using assms
proof (induction cfg avg offs j x h rule: loop_x.induct)
  case (1 cfg avg offs j x h)
  have cond: "(j < KX cfg \<and> (x_exact cfg \<or> x < SX cfg * N_CHANNELS cfg)) = (j < NX cfg px)"
    using "1.prems" by (rule loop_x_cond)
  show ?case
  proof (cases "j < NX cfg px")
    case False
    then have emp: "[j..NX cfg px - 1] = []" by simp
    have nc: "\<not> (j < KX cfg \<and> (x_exact cfg \<or> x < SX cfg * N_CHANNELS cfg))"
      using False cond by simp
    have "loop_x cfg avg offs j x h = Some h"
      by (subst loop_x.simps) (use nc in auto)
    then show ?thesis using emp by simp
  next
    case True
    then have up: "[j..NX cfg px - 1] = j # [j + 1..NX cfg px - 1]" by (simp add: upto_rec1)
    have c: "j < KX cfg \<and> (x_exact cfg \<or> x < SX cfg * N_CHANNELS cfg)" using True cond by simp
    have xn: "x + N_CHANNELS cfg = (px * SLIDE_X cfg + (j + 1)) * N_CHANNELS cfg + ch"
      using "1.prems"(4) by (simp add: algebra_simps)
    show ?thesis
    proof (cases "store cfg h (offs + x) avg")
      case None
      then show ?thesis using c up "1.prems"(4) by (subst loop_x.simps) simp
    next
      case (Some h')
      have "loop_x cfg avg offs (j + 1) (x + N_CHANNELS cfg) h' =
          store_all cfg (map (\<lambda>k. offs + ((px * SLIDE_X cfg + k) * N_CHANNELS cfg + ch))
                            [j + 1..NX cfg px - 1]) avg h'"
        using "1.IH"[OF c Some "1.prems"(1-3) xn] .
      then show ?thesis using c up Some "1.prems"(4) by (subst loop_x.simps) simp
    qed
  qed
qed

lemma loop_y_cond:
  assumes "y = (ty mod OUT_SY cfg) * SLIDE_Y cfg + i"
  shows "(i < KY cfg \<and> (y_exact cfg \<or> y < SY cfg)) = (i < NY cfg ty)"
  using assms by (auto simp: NY_def)

lemma loop_y_cells:
  assumes "0 < N_CHANNELS cfg" "0 \<le> ch" "ch < N_CHANNELS cfg"
    "start_x = (px * SLIDE_X cfg + 0) * N_CHANNELS cfg + ch"
    "y = (ty mod OUT_SY cfg) * SLIDE_Y cfg + i"
  shows "loop_y cfg avg start_x i y offs h =
           store_all cfg (concat (map (\<lambda>r. map (\<lambda>k.
               (offs + (r - i) * (SX cfg * N_CHANNELS cfg)) +
                 ((px * SLIDE_X cfg + k) * N_CHANNELS cfg + ch)) [0..NX cfg px - 1])
             [i..NY cfg ty - 1])) avg h"
  using assms
proof (induction cfg avg start_x i y offs h rule: loop_y.induct)
  case (1 cfg avg start_x i y offs h)
  let ?row = "\<lambda>o'. map (\<lambda>k. o' + ((px * SLIDE_X cfg + k) * N_CHANNELS cfg + ch)) [0..NX cfg px - 1]"
  have cond: "(i < KY cfg \<and> (y_exact cfg \<or> y < SY cfg)) = (i < NY cfg ty)"
    using "1.prems"(5) by (rule loop_y_cond)
  have row: "loop_x cfg avg offs 0 start_x h' = store_all cfg (?row offs) avg h'" for h'
    using loop_x_cells[OF "1.prems"(1-4), of avg offs h'] .
  show ?case
  proof (cases "i < NY cfg ty")
    case False
    then have emp: "[i..NY cfg ty - 1] = []" by simp
    have nc: "\<not> (i < KY cfg \<and> (y_exact cfg \<or> y < SY cfg))" using False cond by simp
    have "loop_y cfg avg start_x i y offs h = Some h"
      by (subst loop_y.simps) (use nc in auto)
    then show ?thesis using emp by simp
  next
    case True
    then have up: "[i..NY cfg ty - 1] = i # [i + 1..NY cfg ty - 1]" by (simp add: upto_rec1)
    have c: "i < KY cfg \<and> (y_exact cfg \<or> y < SY cfg)" using True cond by simp
    have yn: "y + 1 = (ty mod OUT_SY cfg) * SLIDE_Y cfg + (i + 1)" using "1.prems"(5) by simp
    have shift: "(offs + SX cfg * N_CHANNELS cfg) + (r - (i + 1)) * (SX cfg * N_CHANNELS cfg) =
        offs + (r - i) * (SX cfg * N_CHANNELS cfg)" for r
      by (simp add: algebra_simps)
    show ?thesis
    proof (cases "store_all cfg (?row offs) avg h")
      case None
      then show ?thesis using c up row by (subst loop_y.simps) (simp add: store_all_append)
    next
      case (Some h')
      have "loop_y cfg avg start_x (i + 1) (y + 1) (offs + SX cfg * N_CHANNELS cfg) h' =
          store_all cfg (concat (map (\<lambda>r. ?row ((offs + SX cfg * N_CHANNELS cfg) +
               (r - (i + 1)) * (SX cfg * N_CHANNELS cfg))) [i + 1..NY cfg ty - 1])) avg h'"
        using "1.IH"[OF c _ "1.prems"(1-4) yn, of h'] Some row by simp
      then have "loop_y cfg avg start_x (i + 1) (y + 1) (offs + SX cfg * N_CHANNELS cfg) h' =
          store_all cfg (concat (map (\<lambda>r. ?row (offs + (r - i) * (SX cfg * N_CHANNELS cfg)))
               [i + 1..NY cfg ty - 1])) avg h'"
        by (simp only: shift)
      then show ?thesis using c up row Some
        by (subst loop_y.simps) (simp add: store_all_append)
    qed
  qed
qed

lemma gd_avg_pooling_item_cells:
  assumes nc: "0 < N_CHANNELS cfg" and ox: "0 < OUT_SX cfg" and gid: "gid < length err_y"
    and nz: "NY cfg (target_y cfg gid) * NX cfg (TARGET_PIXEL_X cfg (target_x cfg gid)) \<noteq> 0"
  shows "gd_avg_pooling_item cfg err_y gid err_h =
           store_all cfg (window_cells cfg gid)
             (err_y ! gid /
                of_int (NY cfg (target_y cfg gid) * NX cfg (TARGET_PIXEL_X cfg (target_x cfg gid))))
             err_h"
proof -
  let ?tx = "target_x cfg gid" and ?ty = "target_y cfg gid"
  let ?px = "TARGET_PIXEL_X cfg ?tx" and ?ch = "TARGET_CHANNEL cfg ?tx"
  have idx: "?ty * OUT_SX cfg * N_CHANNELS cfg + ?tx = int gid"
    unfolding target_x_def target_y_def mult.assoc by (rule div_mult_mod_eq)
  have rd: "read_at err_y (int gid) = Some (err_y ! gid)" using gid by (simp add: read_at_def)
  have ch: "0 \<le> ?ch" "?ch < N_CHANNELS cfg" using nc by (simp_all add: TARGET_CHANNEL_def)
  have sx: "?px * SLIDE_X cfg * N_CHANNELS cfg + ?ch = (?px * SLIDE_X cfg + 0) * N_CHANNELS cfg + ?ch"
    by simp
  have sy: "?ty mod OUT_SY cfg * SLIDE_Y cfg = (?ty mod OUT_SY cfg) * SLIDE_Y cfg + 0" by simp
  have cells: "concat (map (\<lambda>r. map (\<lambda>k.
               (((?ty div OUT_SY cfg) * SY cfg + ?ty mod OUT_SY cfg * SLIDE_Y cfg) * SX cfg
                    * N_CHANNELS cfg + (r - 0) * (SX cfg * N_CHANNELS cfg)) +
                 ((?px * SLIDE_X cfg + k) * N_CHANNELS cfg + ?ch)) [0..NX cfg ?px - 1])
             [0..NY cfg ?ty - 1]) = window_cells cfg gid"
    by (simp add: window_cells_def Let_def algebra_simps)
  show ?thesis
    unfolding gd_avg_pooling_item_def Let_def idx rd
    using nz loop_y_cells[OF nc ch sx sy] cells by simp
qed

lemma store_all_direct:
  assumes "direct_write cfg" "list_all (\<lambda>c. 0 \<le> c \<and> c < int (length h)) cs"
  shows "store_all cfg cs v h = Some (fold (\<lambda>c h. h[nat c := v]) cs h)"
  using assms by (induction cs arbitrary: h) (auto simp: store_def write_at_def)

lemma store_all_atomic:
  assumes "\<not> direct_write cfg" "list_all (\<lambda>c. 0 \<le> c \<and> c < int (length h)) cs"
  shows "store_all cfg cs v h = Some (fold (\<lambda>c h. h[nat c := h ! nat c + v]) cs h)"
  using assms by (induction cs arbitrary: h) (auto simp: store_def write_at_def ATOM_ADD_def read_at_def)

lemma fold_const_hit:
  assumes "c \<in> set cs \<or> h ! q c = v" "q c < length h"
  shows "fold (\<lambda>c h. h[q c := v]) cs h ! q c = v"
  using assms
proof (induction cs arbitrary: h)
  case Nil
  then show ?case by simp
next
  case (Cons a cs)
  have "c \<in> set cs \<or> (h[q a := v]) ! q c = v"
    using Cons.prems by (cases "q a = q c") auto
  then show ?case using Cons.IH[of "h[q a := v]"] Cons.prems(2) by simp
qed

lemma store_all_direct_nth:
  assumes dw: "direct_write cfg" and rng: "list_all (\<lambda>c. 0 \<le> c \<and> c < int (length h)) cs"
  shows "\<exists>r. store_all cfg cs v h = Some r \<and> length r = length h \<and>
           (\<forall>p < length h. r ! p = (if int p \<in> set cs then v else h ! p))"
proof -
  let ?r = "fold (\<lambda>c h. h[nat c := v]) cs h"
  have run: "store_all cfg cs v h = Some ?r" by (rule store_all_direct[OF dw rng])
  have lr: "length ?r = length h" by (rule length_fold_upd)
  have val: "?r ! p = (if int p \<in> set cs then v else h ! p)" if p: "p < length h" for p
  proof (cases "int p \<in> set cs")
    case True
    then show ?thesis using fold_const_hit[of "int p" cs h nat v] p by simp
  next
    case False
    have "p \<notin> nat ` set cs"
    proof
      assume "p \<in> nat ` set cs"
      then obtain c where c: "c \<in> set cs" "p = nat c" by auto
      then have "0 \<le> c" using rng by (auto simp: list_all_iff)
      then show False using c False by simp
    qed
    then show ?thesis using False fold_upd_frame[of p nat cs "\<lambda>c h. v" h] by simp
  qed
  show ?thesis using run lr val by blast
qed

lemma store_all_atomic_nth:
  assumes dw: "\<not> direct_write cfg" and rng: "list_all (\<lambda>c. 0 \<le> c \<and> c < int (length h)) cs"
    and dist: "distinct cs"
  shows "\<exists>r. store_all cfg cs v h = Some r \<and> length r = length h \<and>
           (\<forall>p < length h. r ! p = (if int p \<in> set cs then h ! p + v else h ! p))"
proof -
  let ?r = "fold (\<lambda>c h. h[nat c := h ! nat c + v]) cs h"
  have run: "store_all cfg cs v h = Some ?r" by (rule store_all_atomic[OF dw rng])
  have lr: "length ?r = length h" by (rule length_fold_upd)
  have val: "?r ! p = (if int p \<in> set cs then h ! p + v else h ! p)" if p: "p < length h" for p
  proof -
    have "?r ! p = h ! p + sum_list (map (\<lambda>c. v) (filter (\<lambda>c. nat c = p) cs))"
      using p by (rule fold_add_nth)
    also have "sum_list (map (\<lambda>c. v) (filter (\<lambda>c. nat c = p) cs)) =
        sum (\<lambda>c. v) (set (filter (\<lambda>c. nat c = p) cs))"
      using dist by (simp add: sum_list_distinct_conv_sum_set)
    also have "set (filter (\<lambda>c. nat c = p) cs) = (if int p \<in> set cs then {int p} else {})"
      using rng by (auto simp: list_all_iff)
    finally show ?thesis by simp
  qed
  show ?thesis using run lr val by blast
qed

lemma int_div_less:
  fixes a b n :: int
  assumes "0 < n" "a < b * n"
  shows "a div n < b"
proof -
  have "a div n * n \<le> a" using assms(1) by (simp add: minus_mod_eq_div_mult[symmetric])
  then have "a div n * n < b * n" using assms(2) by linarith
  then show ?thesis using assms(1) by (simp add: mult_less_cancel_right)
qed

lemma pixel_bounds:
  assumes "valid_geometry cfg"
  shows "0 \<le> TARGET_PIXEL_X cfg (target_x cfg gid)"
    "TARGET_PIXEL_X cfg (target_x cfg gid) \<le> OUT_SX cfg - 1"
    "0 \<le> target_y cfg gid mod OUT_SY cfg" "target_y cfg gid mod OUT_SY cfg \<le> OUT_SY cfg - 1"
    "0 \<le> target_y cfg gid div OUT_SY cfg"
proof -
  have nc: "0 < N_CHANNELS cfg" and ox: "0 < OUT_SX cfg" and oy: "0 < OUT_SY cfg"
    using assms by (simp_all add: valid_geometry_def)
  have pos: "0 < OUT_SX cfg * N_CHANNELS cfg" using nc ox by simp
  have tx: "0 \<le> target_x cfg gid" "target_x cfg gid < OUT_SX cfg * N_CHANNELS cfg"
    using pos by (simp_all add: target_x_def)
  show "0 \<le> TARGET_PIXEL_X cfg (target_x cfg gid)"
    using tx(1) nc by (simp add: TARGET_PIXEL_X_def pos_imp_zdiv_nonneg_iff)
  have "TARGET_PIXEL_X cfg (target_x cfg gid) < OUT_SX cfg"
    unfolding TARGET_PIXEL_X_def using nc tx(2) by (rule int_div_less)
  then show "TARGET_PIXEL_X cfg (target_x cfg gid) \<le> OUT_SX cfg - 1" by simp
  show "0 \<le> target_y cfg gid mod OUT_SY cfg" using oy by simp
  have "target_y cfg gid mod OUT_SY cfg < OUT_SY cfg" using oy by simp
  then show "target_y cfg gid mod OUT_SY cfg \<le> OUT_SY cfg - 1" by simp
  have "0 \<le> target_y cfg gid" using pos by (simp add: target_y_def pos_imp_zdiv_nonneg_iff)
  then show "0 \<le> target_y cfg gid div OUT_SY cfg" using oy by (simp add: pos_imp_zdiv_nonneg_iff)
qed

lemma NX_clipped:
  assumes vg: "valid_geometry cfg" and px: "0 \<le> px" "px \<le> OUT_SX cfg - 1"
  shows "NX cfg px = min (KX cfg) (SX cfg - px * SLIDE_X cfg)" "1 \<le> NX cfg px"
    "px * SLIDE_X cfg + NX cfg px \<le> SX cfg" "0 \<le> px * SLIDE_X cfg"
proof -
  have sl: "0 \<le> SLIDE_X cfg" and k: "0 < KX cfg"
    and last: "(OUT_SX cfg - 1) * SLIDE_X cfg < SX cfg"
    using vg by (simp_all add: valid_geometry_def)
  have le: "px * SLIDE_X cfg \<le> (OUT_SX cfg - 1) * SLIDE_X cfg"
    using px(2) sl by (rule mult_right_mono)
  show nonneg: "0 \<le> px * SLIDE_X cfg" using px(1) sl by simp
  show eq: "NX cfg px = min (KX cfg) (SX cfg - px * SLIDE_X cfg)"
  proof (cases "x_exact cfg")
    case True
    then have "px * SLIDE_X cfg + KX cfg \<le> SX cfg" using le by (simp add: x_exact_def)
    then show ?thesis using True by (simp add: NX_def)
  next
    case False
    then show ?thesis by (simp add: NX_def)
  qed
  show "1 \<le> NX cfg px" using eq le last k by simp
  show "px * SLIDE_X cfg + NX cfg px \<le> SX cfg" using eq by simp
qed

lemma NY_clipped:
  assumes vg: "valid_geometry cfg" and py: "0 \<le> ty mod OUT_SY cfg" "ty mod OUT_SY cfg \<le> OUT_SY cfg - 1"
  shows "NY cfg ty = min (KY cfg) (SY cfg - (ty mod OUT_SY cfg) * SLIDE_Y cfg)" "1 \<le> NY cfg ty"
    "(ty mod OUT_SY cfg) * SLIDE_Y cfg + NY cfg ty \<le> SY cfg" "0 \<le> (ty mod OUT_SY cfg) * SLIDE_Y cfg"
proof -
  have sl: "0 \<le> SLIDE_Y cfg" and k: "0 < KY cfg"
    and last: "(OUT_SY cfg - 1) * SLIDE_Y cfg < SY cfg"
    using vg by (simp_all add: valid_geometry_def)
  have le: "(ty mod OUT_SY cfg) * SLIDE_Y cfg \<le> (OUT_SY cfg - 1) * SLIDE_Y cfg"
    using py(2) sl by (rule mult_right_mono)
  show nonneg: "0 \<le> (ty mod OUT_SY cfg) * SLIDE_Y cfg" using py(1) sl by simp
  show eq: "NY cfg ty = min (KY cfg) (SY cfg - (ty mod OUT_SY cfg) * SLIDE_Y cfg)"
  proof (cases "y_exact cfg")
    case True
    then have "(ty mod OUT_SY cfg) * SLIDE_Y cfg + KY cfg \<le> SY cfg" using le by (simp add: y_exact_def)
    then show ?thesis using True by (simp add: NY_def)
  next
    case False
    then show ?thesis by (simp add: NY_def)
  qed
  show "1 \<le> NY cfg ty" using eq le last k by simp
  show "(ty mod OUT_SY cfg) * SLIDE_Y cfg + NY cfg ty \<le> SY cfg" using eq by simp
qed

lemma clipped_count:
  fixes b k s :: int
  assumes "0 \<le> b" "0 \<le> k"
  shows "int (card ({b..<b + k} \<inter> {0..<s})) = max 0 (min k (s - b))"
proof -
  have "{b..<b + k} \<inter> {0..<s} = {b..<min (b + k) s}" using assms by auto
  then show ?thesis using assms by (auto simp: min_def max_def)
qed

lemma length_window_cells:
  "length (window_cells cfg gid) =
     nat (NY cfg (target_y cfg gid)) * nat (NX cfg (TARGET_PIXEL_X cfg (target_x cfg gid)))"
  by (simp add: window_cells_def Let_def length_concat comp_def sum_list_triv)

lemma flat_index_inj:
  fixes u v u' v' n :: int
  assumes "0 \<le> v" "v < n" "0 \<le> v'" "v' < n" "u * n + v = u' * n + v'"
  shows "u = u' \<and> v = v'"
proof -
  have n: "0 < n" using assms(1,2) by simp
  have "\<not> u < u'"
  proof
    assume "u < u'"
    then have "u * n + v < u' * n" using cell_less_iff[OF n assms(1,2), of u u'] by simp
    then show False using assms(3,5) by simp
  qed
  moreover have "\<not> u' < u"
  proof
    assume "u' < u"
    then have "u' * n + v' < u * n" using cell_less_iff[OF n assms(3,4), of u' u] by simp
    then show False using assms(1,5) by simp
  qed
  ultimately have "u = u'" by simp
  then show ?thesis using assms(5) by simp
qed

lemma concat_map_product:
  "concat (map (\<lambda>i. map (\<lambda>k. g i k) ks) js) = map (\<lambda>(i, k). g i k) (List.product js ks)"
  by (induction js) (simp_all add: comp_def)

lemma distinct_window_cells:
  assumes vg: "valid_geometry cfg"
  shows "distinct (window_cells cfg gid)"
proof -
  let ?tx = "target_x cfg gid" and ?ty = "target_y cfg gid"
  let ?px = "TARGET_PIXEL_X cfg ?tx" and ?ch = "TARGET_CHANNEL cfg ?tx"
  let ?A = "(?ty div OUT_SY cfg) * SY cfg + (?ty mod OUT_SY cfg) * SLIDE_Y cfg"
  let ?B = "?px * SLIDE_X cfg"
  let ?g = "\<lambda>i k. ((?A + i) * SX cfg + (?B + k)) * N_CHANNELS cfg + ?ch"
  have nc: "0 < N_CHANNELS cfg" using vg by (simp add: valid_geometry_def)
  have nx: "?B + NX cfg ?px \<le> SX cfg" "0 \<le> ?B"
    using NX_clipped(3,4)[OF vg pixel_bounds(1,2)[OF vg]] by simp_all
  have wc: "window_cells cfg gid =
      map (\<lambda>(i, k). ?g i k) (List.product [0..NY cfg ?ty - 1] [0..NX cfg ?px - 1])"
    unfolding window_cells_def Let_def by (rule concat_map_product)
  have "inj_on (\<lambda>(i, k). ?g i k) (set (List.product [0..NY cfg ?ty - 1] [0..NX cfg ?px - 1]))"
  proof (rule inj_onI, clarify)
    fix i k i' k'
    assume m: "(i, k) \<in> set (List.product [0..NY cfg ?ty - 1] [0..NX cfg ?px - 1])"
      "(i', k') \<in> set (List.product [0..NY cfg ?ty - 1] [0..NX cfg ?px - 1])"
      and eq: "?g i k = ?g i' k'"
    have k: "0 \<le> ?B + k" "?B + k < SX cfg" "0 \<le> ?B + k'" "?B + k' < SX cfg"
      using m nx by auto
    have "(?A + i) * SX cfg + (?B + k) = (?A + i') * SX cfg + (?B + k')"
      using eq nc by simp
    then have "?A + i = ?A + i' \<and> ?B + k = ?B + k'" by (rule flat_index_inj[OF k])
    then show "i = i' \<and> k = k'" by simp
  qed
  then show ?thesis unfolding wc by (simp add: distinct_map distinct_product)
qed

lemma flat_index_less:
  fixes a b c n :: int
  assumes "0 \<le> c" "c < n" "a < b"
  shows "a * n + c < b * n"
  using cell_less_iff[of n c a b] assms by simp

lemma window_cells_in_range:
  assumes vg: "valid_geometry cfg"
    and gid: "int gid < batch * OUT_SY cfg * OUT_SX cfg * N_CHANNELS cfg"
    and lh: "int (length err_h) = batch * SY cfg * SX cfg * N_CHANNELS cfg"
  shows "list_all (\<lambda>c. 0 \<le> c \<and> c < int (length err_h)) (window_cells cfg gid)"
proof -
  let ?tx = "target_x cfg gid" and ?ty = "target_y cfg gid"
  let ?px = "TARGET_PIXEL_X cfg ?tx" and ?ch = "TARGET_CHANNEL cfg ?tx"
  let ?im = "?ty div OUT_SY cfg" and ?py = "?ty mod OUT_SY cfg"
  have nc: "0 < N_CHANNELS cfg" and ox: "0 < OUT_SX cfg" and oy: "0 < OUT_SY cfg"
    using vg by (simp_all add: valid_geometry_def)
  have ch: "0 \<le> ?ch" "?ch < N_CHANNELS cfg" using nc by (simp_all add: TARGET_CHANNEL_def)
  have nx: "?px * SLIDE_X cfg + NX cfg ?px \<le> SX cfg" "0 \<le> ?px * SLIDE_X cfg"
    using NX_clipped(3,4)[OF vg pixel_bounds(1,2)[OF vg]] by simp_all
  have ny: "?py * SLIDE_Y cfg + NY cfg ?ty \<le> SY cfg" "0 \<le> ?py * SLIDE_Y cfg"
    using NY_clipped(3,4)[OF vg pixel_bounds(3,4)[OF vg]] by simp_all
  have im0: "0 \<le> ?im" by (rule pixel_bounds(5)[OF vg])
  have "int gid < (batch * OUT_SY cfg) * (OUT_SX cfg * N_CHANNELS cfg)"
    using gid by (simp add: mult.assoc)
  then have "?ty < batch * OUT_SY cfg"
    unfolding target_y_def using nc ox by (intro int_div_less) simp_all
  then have im: "?im < batch" using oy by (intro int_div_less)
  have sx0: "0 < SX cfg" and sy0: "0 < SY cfg"
    using nx ny NX_clipped(2)[OF vg pixel_bounds(1,2)[OF vg], of gid]
      NY_clipped(2)[OF vg pixel_bounds(3,4)[OF vg], of gid] by linarith+
  have cell: "0 \<le> ((?im * SY cfg + ?py * SLIDE_Y cfg + i) * SX cfg + (?px * SLIDE_X cfg + k))
                  * N_CHANNELS cfg + ?ch \<and>
        ((?im * SY cfg + ?py * SLIDE_Y cfg + i) * SX cfg + (?px * SLIDE_X cfg + k))
                  * N_CHANNELS cfg + ?ch < int (length err_h)"
    if i: "0 \<le> i" "i \<le> NY cfg ?ty - 1" and k: "0 \<le> k" "k \<le> NX cfg ?px - 1" for i k
  proof -
    let ?y = "?py * SLIDE_Y cfg + i" and ?x = "?px * SLIDE_X cfg + k"
    have y: "0 \<le> ?y" "?y < SY cfg" using i ny by simp_all
    have x: "0 \<le> ?x" "?x < SX cfg" using k nx by simp_all
    have r0: "0 \<le> ?im * SY cfg + ?y" using im0 sy0 y(1) by simp
    have r1: "?im * SY cfg + ?y < batch * SY cfg" using y im by (rule flat_index_less)
    have p0: "0 \<le> (?im * SY cfg + ?y) * SX cfg + ?x" using r0 sx0 x(1) by simp
    have p1: "(?im * SY cfg + ?y) * SX cfg + ?x < (batch * SY cfg) * SX cfg"
      using x r1 by (rule flat_index_less)
    have c0: "0 \<le> ((?im * SY cfg + ?y) * SX cfg + ?x) * N_CHANNELS cfg + ?ch"
      using p0 nc ch(1) by simp
    have c1: "((?im * SY cfg + ?y) * SX cfg + ?x) * N_CHANNELS cfg + ?ch
                < ((batch * SY cfg) * SX cfg) * N_CHANNELS cfg"
      using ch p1 by (rule flat_index_less)
    show ?thesis using c0 c1 lh by (simp add: add.assoc)
  qed
  show ?thesis
    unfolding window_cells_def Let_def list_all_iff using cell by auto
qed

text \<open>
  C4 (as amended). One work item of average pooling backward gives every input
  position of its window \<open>err_y[idx] / (NY * NX)\<close>: stored when windows do not
  overlap, added to the cell when they do. \<open>NX\<close> and \<open>NY\<close> are the numbers of window
  columns and rows that lie inside the image, so the divisor is the number of cells the
  work item touches and not \<open>KX * KY\<close>. For \<open>SX = 5\<close>, \<open>KX = 3\<close>, \<open>SLIDE_X = 2\<close> the
  windows start at x = 0, 2, 4 and the divisor along x is 3, 3 and 1: the clipped last
  window holds one column, and no window has divisor 2.
\<close>

theorem gd_avg_pooling_clipped_window:
  assumes vg: "valid_geometry cfg"
    and gid: "int gid < batch * OUT_SY cfg * OUT_SX cfg * N_CHANNELS cfg"
    and ly: "int (length err_y) = batch * OUT_SY cfg * OUT_SX cfg * N_CHANNELS cfg"
    and lh: "int (length err_h) = batch * SY cfg * SX cfg * N_CHANNELS cfg"
  shows "NX cfg (pixel_x cfg gid) =
           int (card ({pixel_x cfg gid * SLIDE_X cfg ..< pixel_x cfg gid * SLIDE_X cfg + KX cfg}
                        \<inter> {0 ..< SX cfg})) \<and>
         NY cfg (target_y cfg gid) =
           int (card ({pixel_y cfg gid * SLIDE_Y cfg ..< pixel_y cfg gid * SLIDE_Y cfg + KY cfg}
                        \<inter> {0 ..< SY cfg})) \<and>
         distinct (window_cells cfg gid) \<and>
         int (length (window_cells cfg gid)) = divisor cfg gid \<and>
         (\<exists>r. gd_avg_pooling_item cfg err_y gid err_h = Some r \<and> length r = length err_h \<and>
            (\<forall>p < length err_h.
               r ! p = (if int p \<in> set (window_cells cfg gid)
                        then (if direct_write cfg then err_y ! gid / of_int (divisor cfg gid)
                              else err_h ! p + err_y ! gid / of_int (divisor cfg gid))
                        else err_h ! p))) \<and>
         (SX cfg = 5 \<and> KX cfg = 3 \<and> SLIDE_X cfg = 2 \<longrightarrow>
            NX cfg (pixel_x cfg gid) = (if pixel_x cfg gid = 2 then 1 else 3))"
proof (intro conjI)
  let ?px = "pixel_x cfg gid" and ?ty = "target_y cfg gid"
  have px: "0 \<le> ?px" "?px \<le> OUT_SX cfg - 1"
    unfolding pixel_x_def using pixel_bounds(1,2)[OF vg] by simp_all
  have py: "0 \<le> ?ty mod OUT_SY cfg" "?ty mod OUT_SY cfg \<le> OUT_SY cfg - 1"
    using pixel_bounds(3,4)[OF vg] by simp_all
  have k: "0 < KX cfg" "0 < KY cfg" "0 < N_CHANNELS cfg" "0 < OUT_SX cfg"
    using vg by (simp_all add: valid_geometry_def)
  note nx = NX_clipped[OF vg px]
  note ny = NY_clipped[OF vg py]
  show "NX cfg ?px = int (card ({?px * SLIDE_X cfg ..< ?px * SLIDE_X cfg + KX cfg} \<inter> {0 ..< SX cfg}))"
    using clipped_count[of "?px * SLIDE_X cfg" "KX cfg" "SX cfg"] nx k by simp
  show "NY cfg ?ty = int (card ({pixel_y cfg gid * SLIDE_Y cfg ..<
              pixel_y cfg gid * SLIDE_Y cfg + KY cfg} \<inter> {0 ..< SY cfg}))"
    using clipped_count[of "(?ty mod OUT_SY cfg) * SLIDE_Y cfg" "KY cfg" "SY cfg"] ny k
    by (simp add: pixel_y_def)
  show dist: "distinct (window_cells cfg gid)" by (rule distinct_window_cells[OF vg])
  show "int (length (window_cells cfg gid)) = divisor cfg gid"
    using nx(2) ny(2) by (simp add: length_window_cells divisor_def pixel_x_def)
  have nz: "NY cfg ?ty * NX cfg (TARGET_PIXEL_X cfg (target_x cfg gid)) \<noteq> 0"
    using nx(2) ny(2) by (simp add: pixel_x_def)
  have g: "gid < length err_y" using gid ly by simp
  have run: "gd_avg_pooling_item cfg err_y gid err_h =
      store_all cfg (window_cells cfg gid) (err_y ! gid / of_int (divisor cfg gid)) err_h"
    using gd_avg_pooling_item_cells[OF k(3,4) g nz] by (simp add: divisor_def pixel_x_def)
  have rng: "list_all (\<lambda>c. 0 \<le> c \<and> c < int (length err_h)) (window_cells cfg gid)"
    by (rule window_cells_in_range[OF vg gid lh])
  show "\<exists>r. gd_avg_pooling_item cfg err_y gid err_h = Some r \<and> length r = length err_h \<and>
            (\<forall>p < length err_h.
               r ! p = (if int p \<in> set (window_cells cfg gid)
                        then (if direct_write cfg then err_y ! gid / of_int (divisor cfg gid)
                              else err_h ! p + err_y ! gid / of_int (divisor cfg gid))
                        else err_h ! p))"
  proof (cases "direct_write cfg")
    case True
    then show ?thesis
      using store_all_direct_nth[OF True rng, of "err_y ! gid / of_int (divisor cfg gid)"]
      unfolding run by (simp only: if_True)
  next
    case False
    then show ?thesis
      using store_all_atomic_nth[OF False rng dist, of "err_y ! gid / of_int (divisor cfg gid)"]
      unfolding run by (simp only: if_False)
  qed
  show "SX cfg = 5 \<and> KX cfg = 3 \<and> SLIDE_X cfg = 2 \<longrightarrow>
            NX cfg ?px = (if ?px = 2 then 1 else 3)"
  proof
    assume a: "SX cfg = 5 \<and> KX cfg = 3 \<and> SLIDE_X cfg = 2"
    then have "?px * 2 + 1 \<le> 5" using nx(2,3) by simp
    then have "?px = 0 \<or> ?px = 1 \<or> ?px = 2" using px(1) by presburger
    then show "NX cfg ?px = (if ?px = 2 then 1 else 3)" using nx(1) a by auto
  qed
qed

theorem gd_avg_pooling_clipped_window_witness:
  "valid_geometry cfg_overlap \<and>
   int 2 < 1 * OUT_SY cfg_overlap * OUT_SX cfg_overlap * N_CHANNELS cfg_overlap \<and>
   int (length [6, 6, 6 :: real]) =
     1 * OUT_SY cfg_overlap * OUT_SX cfg_overlap * N_CHANNELS cfg_overlap \<and>
   int (length [0, 0, 0, 0, 0 :: real]) =
     1 * SY cfg_overlap * SX cfg_overlap * N_CHANNELS cfg_overlap \<and>
   pixel_x cfg_overlap 2 = 2 \<and> NX cfg_overlap (pixel_x cfg_overlap 2) = 1 \<and>
   divisor cfg_overlap 2 = 1 \<and> window_cells cfg_overlap 2 = [4] \<and>
   gd_avg_pooling_item cfg_overlap [6, 6, 6] 2 [0, 0, 0, 0, 0] = Some [0, 0, 0, 0, 6] \<and>
   divisor cfg_overlap 1 = 3 \<and> window_cells cfg_overlap 1 = [2, 3, 4] \<and>
   gd_avg_pooling_item cfg_overlap [6, 6, 6] 1 [0, 0, 0, 0, 0] = Some [0, 0, 2, 2, 2]"
  using gd_avg_pooling_clipped_window[of cfg_overlap 2 1 "[6, 6, 6]" "[0, 0, 0, 0, 0]"]
    gd_avg_pooling_clipped_window[of cfg_overlap 1 1 "[6, 6, 6]" "[0, 0, 0, 0, 0]"]
  by (simp add: gd_avg_pooling_item_def cfg_overlap_def TARGET_PIXEL_X_def TARGET_CHANNEL_def
    read_at_def target_x_def target_y_def NX_def NY_def x_exact_def y_exact_def store_def
    direct_write_def ATOM_ADD_def write_at_def valid_geometry_def pixel_x_def divisor_def
    window_cells_def upto_rec1)

text \<open>
  The claim as first stated gives the clipped last window of \<open>SX = 5\<close>, \<open>KX = 3\<close>,
  \<open>SLIDE_X = 2\<close> the divisor 2. The last window starts at x = 4 and holds the single
  column 4: the kernel divides by 1.
\<close>

theorem gd_avg_pooling_divisor_counterexample:
  "SX cfg_overlap = 5 \<and> KX cfg_overlap = 3 \<and> SLIDE_X cfg_overlap = 2 \<and>
   valid_geometry cfg_overlap \<and>
   pixel_x cfg_overlap 2 = OUT_SX cfg_overlap - 1 \<and>
   SX cfg_overlap - pixel_x cfg_overlap 2 * SLIDE_X cfg_overlap < KX cfg_overlap \<and>
   NX cfg_overlap (pixel_x cfg_overlap 2) = 1 \<and>
   NX cfg_overlap (pixel_x cfg_overlap 2) \<noteq> 2 \<and>
   gd_avg_pooling_item cfg_overlap [6, 6, 6] 2 [0, 0, 0, 0, 0] = Some [0, 0, 0, 0, 6] \<and>
   gd_avg_pooling_item cfg_overlap [6, 6, 6] 2 [0, 0, 0, 0, 0] \<noteq> Some [0, 0, 0, 0, 6 / 2]"
  by (simp add: gd_avg_pooling_item_def cfg_overlap_def TARGET_PIXEL_X_def TARGET_CHANNEL_def
    read_at_def target_x_def target_y_def NX_def NY_def x_exact_def y_exact_def store_def
    direct_write_def ATOM_ADD_def write_at_def valid_geometry_def pixel_x_def)

section \<open>Properties of the weight update\<close>

lemma gd_terms:
  "gd cfg ortho idx sum_v weight lr factor_l12 l1_vs_l2 factor_ortho col_sums =
     - lr * (sum_v + L1L2Penalty weight factor_l12 l1_vs_l2
               + OrthogonalityPenalty cfg ortho idx weight factor_ortho col_sums)"
  by (simp add: gd_def L1L2Penalty_def OrthogonalityPenalty_def column_index_def)

text \<open>
  C2. With the momentum off, the weight-update step replaces \<open>weights[idx]\<close> by
  \<open>weight - lr * (gradient + L1L2Penalty + OrthogonalityPenalty)\<close>. The orthogonality
  term is there only when \<open>USE_ORTHO > 0\<close>, and its column index is \<open>idx / Y\<close> when
  the weights are stored transposed and \<open>idx % H\<close> otherwise.
\<close>

theorem weights_update_step:
  assumes "idx < length weights" "idx < length gradient" "moment \<le> 0"
  shows "weights_update cfg ortho blend weights gradient gradient_with_moment
           lr factor_l12 l1_vs_l2 moment factor_ortho col_sums idx =
         Some (weights[idx := weights ! idx - lr *
                 (gradient ! idx + L1L2Penalty (weights ! idx) factor_l12 l1_vs_l2
                    + OrthogonalityPenalty cfg ortho idx (weights ! idx) factor_ortho col_sums)]) \<and>
         OrthogonalityPenalty cfg ortho idx (weights ! idx) factor_ortho col_sums =
           (if USE_ORTHO cfg > 0
            then ortho (weights ! idx) factor_ortho
                   (if WEIGHTS_TRANSPOSED cfg > 0 then int idx div Y cfg else int idx mod H cfg)
                   (Y cfg) col_sums
            else 0)"
  using assms
  by (simp add: weights_update_def read_at_def write_at_def store_output_def gd_terms
      OrthogonalityPenalty_def column_index_def)

theorem weights_update_step_witness:
  "(4::nat) < length [1, 1, 1, 1, 10, 1 :: real] \<and> (4::nat) < length [0, 0, 0, 0, 2, 0 :: real] \<and>
   (0::real) \<le> 0 \<and>
   weights_update cfg_ortho sample_ortho (\<lambda>m g d. d) [1, 1, 1, 1, 10, 1] [0, 0, 0, 0, 2, 0]
     [0, 0, 0, 0, 0, 0] (1/2) 1 0 0 1 [100, 200, 300] 4 = Some [1, 1, 1, 1, -96, 1] \<and>
   weights_update cfg_ortho_t sample_ortho (\<lambda>m g d. d) [1, 1, 1, 1, 10, 1] [0, 0, 0, 0, 2, 0]
     [0, 0, 0, 0, 0, 0] (1/2) 1 0 0 1 [100, 200, 300] 4 = Some [1, 1, 1, 1, -146, 1] \<and>
   weights_update cfg_plain sample_ortho (\<lambda>m g d. d) [1, 1, 1, 1, 10, 1] [0, 0, 0, 0, 2, 0]
     [0, 0, 0, 0, 0, 0] (1/2) 1 0 0 1 [100, 200, 300] 4 = Some [1, 1, 1, 1, 4, 1]"
  using weights_update_step[of 4 "[1, 1, 1, 1, 10, 1]" "[0, 0, 0, 0, 2, 0]" 0
      cfg_ortho sample_ortho "\<lambda>m g d. d" "[0, 0, 0, 0, 0, 0]" "1/2" 1 0 1 "[100, 200, 300]"]
    weights_update_step[of 4 "[1, 1, 1, 1, 10, 1]" "[0, 0, 0, 0, 2, 0]" 0
      cfg_ortho_t sample_ortho "\<lambda>m g d. d" "[0, 0, 0, 0, 0, 0]" "1/2" 1 0 1 "[100, 200, 300]"]
    weights_update_step[of 4 "[1, 1, 1, 1, 10, 1]" "[0, 0, 0, 0, 2, 0]" 0
      cfg_plain sample_ortho "\<lambda>m g d. d" "[0, 0, 0, 0, 0, 0]" "1/2" 1 0 1 "[100, 200, 300]"]
  by (simp add: L1L2Penalty_def OrthogonalityPenalty_def column_index_def gradient_step_l12_def
      cfg_ortho_def cfg_ortho_t_def cfg_plain_def sample_ortho_def)

text \<open>
  C6. With \<open>l1_vs_l2 = 0\<close> the L1/L2 term is the pure L2 gradient \<open>factor_l12 * w\<close>;
  with \<open>l1_vs_l2 = 1\<close> it is the pure L1 gradient \<open>factor_l12 * sign(w)\<close>.
\<close>

theorem gradient_step_l12_endpoints:
  "gradient_step_l12 w factor_l12 0 = factor_l12 * w \<and>
   gradient_step_l12 w factor_l12 1 = factor_l12 * sgn w"
  by (simp add: gradient_step_l12_def)

theorem gradient_step_l12_endpoints_witness:
  "gradient_step_l12 (-3) 2 0 = -6 \<and> gradient_step_l12 (-3) 2 1 = -2 \<and>
   gradient_step_l12 0 2 1 = 0"
  using gradient_step_l12_endpoints[of "-3" 2] gradient_step_l12_endpoints[of 0 2]
  by simp

section \<open>Properties of the denormalization kernel template\<close>




lemma num_at_not_num:
  "\<not> coeff_is_num coeffs i \<Longrightarrow> \<exists>msg. num_at coeffs i = Inl (RenderFailure msg)"
  by (auto simp: coeff_is_num_def num_at_def split: coeff.splits)
















section \<open>Properties of parameter injection\<close>

lemma dom_setters: "fst ` set setters_m = registered"
  by (simp add: setters_m_def registered_def)

lemma SetParameter_unknown:
  assumes "name \<notin> registered"
  shows "SetParameter name v u = Inr u"
proof -
  have "name \<notin> fst ` set setters_m" using assms dom_setters by simp
  then have "map_of setters_m name = None" by (simp add: map_of_eq_None_iff)
  then show ?thesis by (simp add: SetParameter_def)
qed

lemma SetParameter_known:
  "SetParameter ''weights'' v u = GetSetter_array (\<lambda>xs u. u\<lparr>weights_m := xs\<rparr>) v u"
  "SetParameter ''bias'' v u = GetSetter_array (\<lambda>xs u. u\<lparr>bias_m := xs\<rparr>) v u"
  "SetParameter ''weights_length'' v u = GetSetter_size (\<lambda>n u. u\<lparr>weights_length_m := n\<rparr>) v u"
  "SetParameter ''bias_length'' v u = GetSetter_size (\<lambda>n u. u\<lparr>bias_length_m := n\<rparr>) v u"
  by (simp_all add: SetParameter_def setters_m_def)

lemma GetSetter_array_checks:
  "GetSetter_array assign v u =
     (if type_of v = FloatArrayType then Inr (assign (case v of FloatArray xs \<Rightarrow> xs) u)
      else Inl (TypeMismatch ''expected an array of float''))"
  by (cases v) (simp_all add: GetSetter_array_def)

lemma GetSetter_size_checks:
  "GetSetter_size assign v u =
     (if type_of v = SizeType then Inr (assign (case v of Size n \<Rightarrow> n) u)
      else Inl (TypeMismatch ''expected a size''))"
  by (cases v) (simp_all add: GetSetter_size_def)

text \<open>
  C7. \<open>SetParameter(name, value)\<close> leaves the unit as it is and raises nothing when
  \<open>name\<close> is not one of the registered names; for a registered name it is the call of
  the setter bound to it, which fails with TypeMismatch when the value's type is not the
  type of the bound field, and otherwise writes the value into that field.
\<close>

theorem SetParameter_contract:
  "(name \<notin> registered \<longrightarrow> SetParameter name v u = Inr u) \<and>
   (name \<in> registered \<longrightarrow>
      (\<exists>setter. map_of setters_m name = Some setter \<and> SetParameter name v u = setter v u)) \<and>
   (name \<in> registered \<and> type_of v \<noteq> expected_type name \<longrightarrow>
      (\<exists>msg. SetParameter name v u = Inl (TypeMismatch msg))) \<and>
   (name \<in> registered \<and> type_of v = expected_type name \<longrightarrow>
      (\<exists>u'. SetParameter name v u = Inr u')) \<and>
   SetParameter ''weights'' (FloatArray xs) u = Inr (u\<lparr>weights_m := xs\<rparr>) \<and>
   SetParameter ''bias'' (FloatArray xs) u = Inr (u\<lparr>bias_m := xs\<rparr>) \<and>
   SetParameter ''weights_length'' (Size n) u = Inr (u\<lparr>weights_length_m := n\<rparr>) \<and>
   SetParameter ''bias_length'' (Size n) u = Inr (u\<lparr>bias_length_m := n\<rparr>)"
proof (intro conjI impI)
  assume "name \<notin> registered"
  then show "SetParameter name v u = Inr u" by (rule SetParameter_unknown)
next
  assume "name \<in> registered"
  then show "\<exists>setter. map_of setters_m name = Some setter \<and> SetParameter name v u = setter v u"
    by (auto simp: registered_def SetParameter_def setters_m_def)
next
  assume "name \<in> registered \<and> type_of v \<noteq> expected_type name"
  then show "\<exists>msg. SetParameter name v u = Inl (TypeMismatch msg)"
    by (auto simp: registered_def expected_type_def SetParameter_known
        GetSetter_array_checks GetSetter_size_checks)
next
  assume "name \<in> registered \<and> type_of v = expected_type name"
  then show "\<exists>u'. SetParameter name v u = Inr u'"
    by (auto simp: registered_def expected_type_def SetParameter_known
        GetSetter_array_checks GetSetter_size_checks)
qed (simp_all add: SetParameter_known GetSetter_array_def GetSetter_size_def)

theorem SetParameter_contract_witness:
  "''momentum'' \<notin> registered \<and>
   SetParameter ''momentum'' (Size 3) All2All_new = Inr All2All_new \<and>
   ''weights'' \<in> registered \<and> type_of (Size 3) \<noteq> expected_type ''weights'' \<and>
   SetParameter ''weights'' (Size 3) All2All_new = Inl (TypeMismatch ''expected an array of float'') \<and>
   ''bias_length'' \<in> registered \<and> type_of (Text ''2'') \<noteq> expected_type ''bias_length'' \<and>
   SetParameter ''bias_length'' (Text ''2'') All2All_new = Inl (TypeMismatch ''expected a size'') \<and>
   type_of (FloatArray [1, 2]) = expected_type ''weights'' \<and>
   SetParameter ''weights'' (FloatArray [1, 2]) All2All_new = Inr (All2All_new\<lparr>weights_m := [1, 2]\<rparr>)"
  using SetParameter_contract[of "''momentum''" "Size 3" All2All_new]
    SetParameter_contract[of "''weights''" "Size 3" All2All_new "[1, 2]"]
    SetParameter_contract[of "''bias_length''" "Text ''2''" All2All_new]
  by (simp add: registered_def expected_type_def SetParameter_known GetSetter_array_def
      GetSetter_size_def)

section \<open>Properties of All2All forward\<close>

lemma sum_list_upt_sum:
  fixes g :: "nat \<Rightarrow> dtype"
  shows "sum_list (map g [0..<n]) = (\<Sum>k < n. g k)"
  by (simp add: sum_list_distinct_conv_sum_set atLeast0LessThan)

lemma Execute_value:
  assumes w: "InputCount u * OutputCount u \<le> length (weights_m u)"
    and b: "OutputCount u \<le> length (bias_m u)"
    and x: "InputCount u \<le> length x"
    and o: "OutputCount u \<le> length out"
  shows "Execute f garbage u x out =
           Some (u, map (\<lambda>j. f (WT_x_plus_b u x j)) [0..<OutputCount u] @ drop (OutputCount u) out)"
proof -
  let ?n = "OutputCount u" and ?m = "InputCount u"
  let ?prod = "map (\<lambda>j. sum_list (map (\<lambda>k. weights_m u ! (k * ?n + j) * x ! (k * 1 + 0)) [0..<?m]))
                 [0..<?n]"
  have mm: "matrix_multiply_transposed x (weights_m u) ?m 1 ?m ?n (map garbage [0..<?n]) = Some ?prod"
    using w x by (simp add: matrix_multiply_transposed_def comp_def)
  have add: "matrix_add ?prod (bias_m u) 1 ?n out =
      Some (map (\<lambda>j. WT_x_plus_b u x j) [0..<?n] @ drop ?n out)"
    using b o by (simp add: matrix_add_def WT_x_plus_b_def W_def sum_list_upt_sum)
  have act: "ApplyActivationFunction f (map (\<lambda>j. WT_x_plus_b u x j) [0..<?n] @ drop ?n out) ?n =
      Some (map (\<lambda>j. f (WT_x_plus_b u x j)) [0..<?n] @ drop ?n out)"
    by (simp add: ApplyActivationFunction_def comp_def)
  show ?thesis unfolding Execute_def Let_def by (simp only: mm add act option.case)
qed

lemma counts:
  assumes "weights_length_m u = input_count * output_count" "bias_length_m u = output_count"
    "0 < output_count"
  shows "InputCount u = input_count" "OutputCount u = output_count"
  using assms by (simp_all add: InputCount_def OutputCount_def)

text \<open>
  C1. For a weight matrix of input_count rows and output_count columns (stored row by
  row, \<open>W[k][j] = weights[k * output_count + j]\<close>), a bias of output_count elements and
  an input of input_count elements, \<open>Execute\<close> with the identity activation writes
  \<open>out[j] = (\<Sum>k. W[k][j] * x[k]) + b[j]\<close>, that is \<open>W\<^sup>T x + b\<close>; with an activation
  \<open>f\<close> it writes \<open>f\<close> of that value, element by element.
\<close>

theorem Execute_is_WT_x_plus_b:
  assumes "weights_length_m u = input_count * output_count" "bias_length_m u = output_count"
    "0 < output_count" "length (weights_m u) = input_count * output_count"
    "length (bias_m u) = output_count" "length x = input_count" "length out = output_count"
  shows "Execute (\<lambda>v. v) garbage u x out =
           Some (u, map (\<lambda>j. (\<Sum>k < input_count. weights_m u ! (k * output_count + j) * x ! k)
                              + bias_m u ! j) [0..<output_count]) \<and>
         Execute f garbage u x out =
           Some (u, map (\<lambda>j. f ((\<Sum>k < input_count. weights_m u ! (k * output_count + j) * x ! k)
                                 + bias_m u ! j)) [0..<output_count])"
proof -
  have c: "InputCount u = input_count" "OutputCount u = output_count"
    using counts[OF assms(1-3)] by simp_all
  have val: "Execute g garbage u x out =
      Some (u, map (\<lambda>j. g (WT_x_plus_b u x j)) [0..<OutputCount u] @ drop (OutputCount u) out)" for g
    by (rule Execute_value) (use assms c in simp_all)
  show ?thesis using val[of "\<lambda>v. v"] val[of f] assms(7) c by (simp add: WT_x_plus_b_def W_def)
qed

theorem Execute_is_WT_x_plus_b_witness:
  "weights_length_m unit32 = 3 * 2 \<and> bias_length_m unit32 = 2 \<and> (0::nat) < 2 \<and>
   length (weights_m unit32) = 3 * 2 \<and> length (bias_m unit32) = 2 \<and>
   length [1, 1, 2 :: real] = 3 \<and> length [0, 0 :: real] = 2 \<and>
   Execute (\<lambda>v. v) (\<lambda>i. 99) unit32 [1, 1, 2] [0, 0] = Some (unit32, [24, 38]) \<and>
   Execute (\<lambda>v. - v) (\<lambda>i. 99) unit32 [1, 1, 2] [0, 0] = Some (unit32, [-24, -38])"
  using Execute_is_WT_x_plus_b[of unit32 3 2 "[1, 1, 2]" "[0, 0]" "\<lambda>i. 99" "\<lambda>v. - v"]
  by (simp add: unit32_def upt_rec numeral_eq_Suc)

text \<open>
  C9. \<open>Execute\<close> returns the unit unchanged, and what it writes to the first
  output_count elements of \<open>out\<close> depends only on the unit's parameters and the input:
  not on the contents of the fresh \<open>tmp\<close> buffer, nor on what \<open>out\<close> held before.
  Two executions with the same weights, bias, activation and input produce the same
  output.
\<close>

theorem Execute_pure:
  assumes "InputCount u * OutputCount u \<le> length (weights_m u)"
    "OutputCount u \<le> length (bias_m u)" "InputCount u \<le> length x"
    "OutputCount u \<le> length out1" "OutputCount u \<le> length out2"
  shows "\<exists>r. length r = OutputCount u \<and>
              Execute f garbage1 u x out1 = Some (u, r @ drop (OutputCount u) out1) \<and>
              Execute f garbage2 u x out2 = Some (u, r @ drop (OutputCount u) out2)"
  using Execute_value[OF assms(1-3), of out1 f garbage1] Execute_value[OF assms(1-3), of out2 f garbage2]
    assms(4,5) by simp

theorem Execute_pure_witness:
  "InputCount unit32 * OutputCount unit32 \<le> length (weights_m unit32) \<and>
   OutputCount unit32 \<le> length (bias_m unit32) \<and> InputCount unit32 \<le> length [1, 1, 2 :: real] \<and>
   OutputCount unit32 \<le> length [0, 0 :: real] \<and> OutputCount unit32 \<le> length [7, 8, 9 :: real] \<and>
   Execute (\<lambda>v. v) (\<lambda>i. 99) unit32 [1, 1, 2] [0, 0] = Some (unit32, [24, 38]) \<and>
   Execute (\<lambda>v. v) (\<lambda>i. real i) unit32 [1, 1, 2] [7, 8, 9] = Some (unit32, [24, 38, 9])"
  using Execute_pure[of unit32 "[1, 1, 2]" "[0, 0]" "[7, 8, 9]" "\<lambda>v. v" "\<lambda>i. 99" "\<lambda>i. real i"]
  by (simp add: unit32_def Execute_def InputCount_def OutputCount_def
      matrix_multiply_transposed_def matrix_add_def ApplyActivationFunction_def upt_rec)

section \<open>Max pooling backward on disjoint windows\<close>

lemma window_cells_mem:
  assumes "c \<in> set (window_cells cfg gid)"
  obtains i k where "0 \<le> i" "i < NY cfg (target_y cfg gid)" "0 \<le> k" "k < NX cfg (pixel_x cfg gid)"
    "c = (((target_y cfg gid div OUT_SY cfg) * SY cfg + (pixel_y cfg gid * SLIDE_Y cfg + i)) * SX cfg
            + (pixel_x cfg gid * SLIDE_X cfg + k)) * N_CHANNELS cfg
          + TARGET_CHANNEL cfg (target_x cfg gid)"
  using assms by (auto simp: window_cells_def Let_def pixel_x_def pixel_y_def add.assoc)

lemma gid_decompose:
  assumes "0 < N_CHANNELS cfg"
  shows "int gid = ((target_y cfg gid div OUT_SY cfg) * OUT_SY cfg + pixel_y cfg gid)
                     * (OUT_SX cfg * N_CHANNELS cfg)
                   + (pixel_x cfg gid * N_CHANNELS cfg + TARGET_CHANNEL cfg (target_x cfg gid))"
proof -
  have "pixel_x cfg gid * N_CHANNELS cfg + TARGET_CHANNEL cfg (target_x cfg gid) = target_x cfg gid"
    by (simp add: pixel_x_def TARGET_PIXEL_X_def TARGET_CHANNEL_def)
  moreover have "(target_y cfg gid div OUT_SY cfg) * OUT_SY cfg + pixel_y cfg gid = target_y cfg gid"
    by (simp add: pixel_y_def)
  moreover have "target_y cfg gid * (OUT_SX cfg * N_CHANNELS cfg) + target_x cfg gid = int gid"
    unfolding target_x_def target_y_def by (rule div_mult_mod_eq)
  ultimately show ?thesis by simp
qed

lemma window_cells_disjoint:
  assumes vg: "valid_geometry cfg" and dw: "direct_write cfg"
    and c1: "c \<in> set (window_cells cfg g1)" and c2: "c \<in> set (window_cells cfg g2)"
  shows "g1 = g2"
proof -
  have nc: "0 < N_CHANNELS cfg" and kx: "0 < KX cfg" and ky: "0 < KY cfg"
    using vg by (simp_all add: valid_geometry_def)
  have sx: "KX cfg \<le> SLIDE_X cfg" and sy: "KY cfg \<le> SLIDE_Y cfg"
    using dw by (simp_all add: direct_write_def)
  {
    fix g
    have px: "0 \<le> pixel_x cfg g" "pixel_x cfg g \<le> OUT_SX cfg - 1"
      unfolding pixel_x_def using pixel_bounds(1,2)[OF vg] by simp_all
    have py: "0 \<le> target_y cfg g mod OUT_SY cfg" "target_y cfg g mod OUT_SY cfg \<le> OUT_SY cfg - 1"
      using pixel_bounds(3,4)[OF vg] by simp_all
    note nx = NX_clipped[OF vg px]
    note ny = NY_clipped[OF vg py]
    have "NX cfg (pixel_x cfg g) \<le> SLIDE_X cfg" using nx(1) sx by simp
    moreover have "NY cfg (target_y cfg g) \<le> SLIDE_Y cfg" using ny(1) sy by simp
    moreover have "pixel_x cfg g * SLIDE_X cfg + NX cfg (pixel_x cfg g) \<le> SX cfg" by (rule nx(3))
    moreover have "pixel_y cfg g * SLIDE_Y cfg + NY cfg (target_y cfg g) \<le> SY cfg"
      using ny(3) by (simp add: pixel_y_def)
    moreover have "0 \<le> pixel_x cfg g * SLIDE_X cfg" by (rule nx(4))
    moreover have "0 \<le> pixel_y cfg g * SLIDE_Y cfg" using ny(4) by (simp add: pixel_y_def)
    moreover have "0 \<le> TARGET_CHANNEL cfg (target_x cfg g)"
      "TARGET_CHANNEL cfg (target_x cfg g) < N_CHANNELS cfg"
      using nc by (simp_all add: TARGET_CHANNEL_def)
    ultimately have "NX cfg (pixel_x cfg g) \<le> SLIDE_X cfg \<and> NY cfg (target_y cfg g) \<le> SLIDE_Y cfg \<and>
        pixel_x cfg g * SLIDE_X cfg + NX cfg (pixel_x cfg g) \<le> SX cfg \<and>
        pixel_y cfg g * SLIDE_Y cfg + NY cfg (target_y cfg g) \<le> SY cfg \<and>
        0 \<le> pixel_x cfg g * SLIDE_X cfg \<and> 0 \<le> pixel_y cfg g * SLIDE_Y cfg \<and>
        0 \<le> TARGET_CHANNEL cfg (target_x cfg g) \<and>
        TARGET_CHANNEL cfg (target_x cfg g) < N_CHANNELS cfg"
      by simp
  }
  note b = this
  obtain i1 k1 where w1: "0 \<le> i1" "i1 < NY cfg (target_y cfg g1)" "0 \<le> k1"
    "k1 < NX cfg (pixel_x cfg g1)"
    "c = (((target_y cfg g1 div OUT_SY cfg) * SY cfg + (pixel_y cfg g1 * SLIDE_Y cfg + i1)) * SX cfg
            + (pixel_x cfg g1 * SLIDE_X cfg + k1)) * N_CHANNELS cfg
          + TARGET_CHANNEL cfg (target_x cfg g1)"
    using c1 by (rule window_cells_mem)
  obtain i2 k2 where w2: "0 \<le> i2" "i2 < NY cfg (target_y cfg g2)" "0 \<le> k2"
    "k2 < NX cfg (pixel_x cfg g2)"
    "c = (((target_y cfg g2 div OUT_SY cfg) * SY cfg + (pixel_y cfg g2 * SLIDE_Y cfg + i2)) * SX cfg
            + (pixel_x cfg g2 * SLIDE_X cfg + k2)) * N_CHANNELS cfg
          + TARGET_CHANNEL cfg (target_x cfg g2)"
    using c2 by (rule window_cells_mem)
  let ?im1 = "target_y cfg g1 div OUT_SY cfg" and ?im2 = "target_y cfg g2 div OUT_SY cfg"
  let ?y1 = "pixel_y cfg g1 * SLIDE_Y cfg + i1" and ?y2 = "pixel_y cfg g2 * SLIDE_Y cfg + i2"
  let ?x1 = "pixel_x cfg g1 * SLIDE_X cfg + k1" and ?x2 = "pixel_x cfg g2 * SLIDE_X cfg + k2"
  let ?ch1 = "TARGET_CHANNEL cfg (target_x cfg g1)" and ?ch2 = "TARGET_CHANNEL cfg (target_x cfg g2)"
  have x1: "0 \<le> ?x1" "?x1 < SX cfg" using w1 b[of g1] by simp_all
  have x2: "0 \<le> ?x2" "?x2 < SX cfg" using w2 b[of g2] by simp_all
  have y1: "0 \<le> ?y1" "?y1 < SY cfg" using w1 b[of g1] by simp_all
  have y2: "0 \<le> ?y2" "?y2 < SY cfg" using w2 b[of g2] by simp_all
  have ch1: "0 \<le> ?ch1" "?ch1 < N_CHANNELS cfg" using b[of g1] by simp_all
  have ch2: "0 \<le> ?ch2" "?ch2 < N_CHANNELS cfg" using b[of g2] by simp_all
  have e0: "((?im1 * SY cfg + ?y1) * SX cfg + ?x1) * N_CHANNELS cfg + ?ch1 =
            ((?im2 * SY cfg + ?y2) * SX cfg + ?x2) * N_CHANNELS cfg + ?ch2"
    using w1(5) w2(5) by simp
  have e1: "(?im1 * SY cfg + ?y1) * SX cfg + ?x1 = (?im2 * SY cfg + ?y2) * SX cfg + ?x2"
    and ch: "?ch1 = ?ch2"
    using flat_index_inj[OF ch1 ch2 e0] by simp_all
  have e2: "?im1 * SY cfg + ?y1 = ?im2 * SY cfg + ?y2" and x: "?x1 = ?x2"
    using flat_index_inj[OF x1 x2 e1] by simp_all
  have im: "?im1 = ?im2" and y: "?y1 = ?y2"
    using flat_index_inj[OF y1 y2 e2] by simp_all
  have k1: "0 \<le> k1" "k1 < SLIDE_X cfg" using w1 b[of g1] by simp_all
  have k2: "0 \<le> k2" "k2 < SLIDE_X cfg" using w2 b[of g2] by simp_all
  have px: "pixel_x cfg g1 = pixel_x cfg g2" using flat_index_inj[OF k1 k2 x] by simp
  have i1: "0 \<le> i1" "i1 < SLIDE_Y cfg" using w1 b[of g1] by simp_all
  have i2: "0 \<le> i2" "i2 < SLIDE_Y cfg" using w2 b[of g2] by simp_all
  have py: "pixel_y cfg g1 = pixel_y cfg g2" using flat_index_inj[OF i1 i2 y] by simp
  have "int g1 = int g2"
    using gid_decompose[OF nc, of g1] gid_decompose[OF nc, of g2] im py px ch by simp
  then show ?thesis by simp
qed

lemma argmax_offsets_distinct:
  assumes vg: "valid_geometry cfg" and dw: "direct_write cfg" and am: "argmax_offsets cfg n h_offs"
  shows "distinct h_offs"
proof -
  have len: "length h_offs = n"
    and mem: "\<And>idx. idx < n \<Longrightarrow> h_offs ! idx \<in> set (window_cells cfg idx)"
    using am by (auto simp: argmax_offsets_def list_all_iff)
  show ?thesis
    unfolding distinct_conv_nth
  proof (intro allI impI)
    fix i j assume ij: "i < length h_offs" "j < length h_offs" "i \<noteq> j"
    show "h_offs ! i \<noteq> h_offs ! j"
    proof
      assume eq: "h_offs ! i = h_offs ! j"
      have "h_offs ! i \<in> set (window_cells cfg i)" "h_offs ! i \<in> set (window_cells cfg j)"
        using mem[of i] mem[of j] ij len eq by simp_all
      then have "i = j" by (rule window_cells_disjoint[OF vg dw])
      then show False using ij(3) by simp
    qed
  qed
qed

lemma argmax_offsets_in_range:
  assumes vg: "valid_geometry cfg" and am: "argmax_offsets cfg n h_offs"
    and n: "int n = batch * OUT_SY cfg * OUT_SX cfg * N_CHANNELS cfg"
    and m: "int m = batch * SY cfg * SX cfg * N_CHANNELS cfg"
  shows "offsets_in_range n m h_offs"
proof -
  have len: "length h_offs = n"
    and mem: "\<And>idx. idx < n \<Longrightarrow> h_offs ! idx \<in> set (window_cells cfg idx)"
    using am by (auto simp: argmax_offsets_def list_all_iff)
  have "0 \<le> h_offs ! idx \<and> h_offs ! idx < int m" if "idx < n" for idx
  proof -
    have "int idx < batch * OUT_SY cfg * OUT_SX cfg * N_CHANNELS cfg" using that n by simp
    then have "list_all (\<lambda>c. 0 \<le> c \<and> c < int (length (replicate m (0::real)))) (window_cells cfg idx)"
      using window_cells_in_range[OF vg, of idx batch "replicate m (0::real)"] m by simp
    then show ?thesis using mem[OF that] by (simp add: list_all_iff)
  qed
  then show ?thesis using len by (simp add: offsets_in_range_def list_all_length)
qed

text \<open>
  C5. Max pooling backward with non-overlapping windows (\<open>SLIDE_X \<ge> KX\<close> and
  \<open>SLIDE_Y \<ge> KY\<close>), run on a zero-filled \<open>err_h\<close> with an offset array that records,
  for every output element, a position inside its window: whatever the order of the work
  items, every \<open>err_y[idx]\<close> arrives at \<open>h_offs[idx]\<close>, every other cell stays zero, an
  impulse \<open>e\<close> at output \<open>k\<close> yields exactly the impulse \<open>e\<close> at \<open>h_offs[k]\<close>, and the
  sum of \<open>err_h\<close> equals the sum of \<open>err_y\<close>.
\<close>

theorem gd_max_pooling_conservation:
  fixes err_y :: "('a::comm_monoid_add) list"
  assumes vg: "valid_geometry cfg" and dw: "direct_write cfg"
    and n: "int n = batch * OUT_SY cfg * OUT_SX cfg * N_CHANNELS cfg"
    and m: "int m = batch * SY cfg * SX cfg * N_CHANNELS cfg"
    and len: "length err_y = n" and am: "argmax_offsets cfg n h_offs"
    and sch: "is_schedule n sched"
  shows "\<exists>r. gd_max_pooling cfg err_y h_offs sched (replicate m 0) = Some r \<and> length r = m \<and>
           (\<forall>i<n. r ! nat (h_offs ! i) = err_y ! i) \<and>
           (\<forall>p<m. int p \<notin> set h_offs \<longrightarrow> r ! p = 0) \<and>
           (\<forall>k<n. \<forall>e. err_y = (replicate n 0)[k := e] \<longrightarrow>
                r = (replicate m 0)[nat (h_offs ! k) := e]) \<and>
           sum_list r = sum_list err_y"
  using direct_pass_conservation[OF dw argmax_offsets_in_range[OF vg am n m]
      argmax_offsets_distinct[OF vg dw am] len sch] .

lemma cfg_disjoint_windows:
  "window_cells cfg_disjoint 0 = [0, 1, 4, 5]"
  "window_cells cfg_disjoint (Suc 0) = [2, 3, 6, 7]"
  "window_cells cfg_disjoint 2 = [8, 9, 12, 13]"
  "window_cells cfg_disjoint 3 = [10, 11, 14, 15]"
  by (simp_all add: window_cells_def cfg_disjoint_def target_x_def target_y_def
      TARGET_PIXEL_X_def TARGET_CHANNEL_def NX_def NY_def x_exact_def y_exact_def upto_rec1)

theorem gd_max_pooling_conservation_witness:
  "valid_geometry cfg_disjoint \<and> direct_write cfg_disjoint \<and>
   int 4 = 1 * OUT_SY cfg_disjoint * OUT_SX cfg_disjoint * N_CHANNELS cfg_disjoint \<and>
   int 16 = 1 * SY cfg_disjoint * SX cfg_disjoint * N_CHANNELS cfg_disjoint \<and>
   length [3, 5, 0, 2 :: int] = 4 \<and>
   argmax_offsets cfg_disjoint 4 [5, 2, 8, 15] \<and> is_schedule 4 [2, 0, 3, 1] \<and>
   gd_max_pooling cfg_disjoint [3, 5, 0, 2 :: int] [5, 2, 8, 15] [2, 0, 3, 1] (replicate 16 0) =
     Some [0, 0, 5, 0, 0, 3, 0, 0, 0, 0, 0, 0, 0, 0, 0, 2] \<and>
   sum_list [0, 0, 5, 0, 0, 3, 0, 0, 0, 0, 0, 0, 0, 0, 0, 2 :: int] = sum_list [3, 5, 0, 2]"
proof -
  have up: "[0..<4] = [0, 1, 2, 3]" by (simp add: upt_rec)
  have am: "argmax_offsets cfg_disjoint 4 [5, 2, 8, 15]"
    unfolding argmax_offsets_def up by (simp add: cfg_disjoint_windows)
  have geo: "valid_geometry cfg_disjoint \<and> direct_write cfg_disjoint"
    by (simp add: valid_geometry_def direct_write_def cfg_disjoint_def)
  show ?thesis
    using gd_max_pooling_conservation[of cfg_disjoint 4 1 16 "[3, 5, 0, 2 :: int]" "[5, 2, 8, 15]"
        "[2, 0, 3, 1]"] am geo
    by (simp add: direct_write_def cfg_disjoint_def is_schedule_def
      gd_max_pooling_def gd_max_pooling_item_def read_at_def write_at_def upt_rec
      numeral_eq_Suc)
qed

end
